theory Spec2Isabelle
  imports Main "HOL-Library.Word" "HOL-Library.Char_ord" "HOL-Library.List_Lexorder"
begin

unbundle bit_operations_syntax

section \<open>Byte strings and the library hashes\<close>

text \<open>
  Python \<open>bytes\<close> values are lists of octets. The digest functions of \<open>hashlib\<close>
  (\<open>sha256\<close>, \<open>sha1\<close>) are library code outside the repository: every function below that
  hashes takes the digest function as its first argument, so that each result holds for
  SHA-256 and for any other function put in its place. Values that the program stores in
  base64 are kept as the bytes they encode.
\<close>

type_synonym bytes = "8 word list"

datatype py_error = OSError | ValueError | IndexError

section \<open>utils.py: names and bundle selection\<close>

text \<open>
  File names are Python \<open>str\<close> values, modelled as lists of 8-bit characters; \<open>sorted\<close>
  orders them by code point, lexicographically, which is the order of \<open>char list\<close>.
  A directory is what \<open>os.listdir\<close> returns for it; \<open>None\<close> stands for \<open>OSError\<close>.
\<close>

type_synonym listing = "string \<Rightarrow> string list option"

definition is_digit :: "char \<Rightarrow> bool" where
  "is_digit c = (c \<in> set ''0123456789'')"

definition newline :: char where
  "newline = CHR 0x0A"

text \<open>The dot of a Python regular expression: any character except a newline.\<close>

definition re_dot :: "char \<Rightarrow> bool" where
  "re_dot c = (c \<noteq> newline)"

text \<open>\<open>$\<close> matches at the end of the string and just before a newline that ends it.\<close>

definition re_end :: "string \<Rightarrow> bool" where
  "re_end rest = (rest = [] \<or> rest = [newline])"

text \<open>
  The expressions of this program are sequences of fixed-width items, so matching is one
  pass from the left: each item consumes its characters and gives the rest of the string.
\<close>

definition re_digits :: "nat \<Rightarrow> string \<Rightarrow> string option" where
  "re_digits n s =
     (if length (take n s) = n \<and> list_all is_digit (take n s) then Some (drop n s) else None)"

definition re_lit :: "string \<Rightarrow> string \<Rightarrow> string option" where
  "re_lit lit s = (if take (length lit) s = lit then Some (drop (length lit) s) else None)"

definition re_any :: "string \<Rightarrow> string option" where
  "re_any s = (case s of [] \<Rightarrow> None | c # r \<Rightarrow> if re_dot c then Some r else None)"

fun re_seq :: "(string \<Rightarrow> string option) list \<Rightarrow> string \<Rightarrow> string option" where
  "re_seq [] s = Some s"
| "re_seq (item # items) s = (case item s of None \<Rightarrow> None | Some rest \<Rightarrow> re_seq items rest)"

definition re_match_end :: "string option \<Rightarrow> bool" where
  "re_match_end m = (case m of None \<Rightarrow> False | Some rest \<Rightarrow> re_end rest)"

text \<open>\<open>bundle_name_re = re.compile('^[0-9]{10}-[0-9]{10}.json.gz$')\<close>: the dots are unescaped.\<close>

definition bundle_name_re :: "string \<Rightarrow> bool" where
  "bundle_name_re f =
     re_match_end (re_seq [re_digits 10, re_lit ''-'', re_digits 10, re_any, re_lit ''json'',
                           re_any, re_lit ''gz''] f)"

text \<open>
  \<open>bundle_name_extract_re\<close> is the same expression with two groups. It is applied
  only to names that passed \<open>bundle_name_re\<close>, where group 1 is the first ten characters
  and group 2 the ten characters after the dash.
\<close>

definition bundle_group1 :: "string \<Rightarrow> string" where
  "bundle_group1 f = take 10 f"

definition bundle_group2 :: "string \<Rightarrow> string" where
  "bundle_group2 f = take 10 (drop 11 f)"

text \<open>\<open>int(s)\<close> on a string of decimal digits, as the groups are.\<close>

definition digit_val :: "char \<Rightarrow> int" where
  "digit_val c = int (of_char c) - 48"

definition int_of_digits :: "string \<Rightarrow> int" where
  "int_of_digits s = foldl (\<lambda>a c. 10 * a + digit_val c) 0 s"

text \<open>
  \<open>'{:0w}'.format(i)\<close>: the decimal numeral of \<open>i\<close>, filled with zeros after the sign
  up to width \<open>w\<close>. \<open>dec_digits\<close> gives the digits of a number that is not negative.
\<close>

function dec_digits :: "int \<Rightarrow> string" where
  "dec_digits n =
     (if n < 10 then [char_of (48 + n)] else dec_digits (n div 10) @ [char_of (48 + n mod 10)])"
  by pat_completeness auto
termination
  by (relation "measure nat") auto

declare dec_digits.simps [simp del]

definition zero_fill :: "nat \<Rightarrow> string \<Rightarrow> string" where
  "zero_fill w ds = replicate (w - length ds) CHR ''0'' @ ds"

definition format_zero :: "nat \<Rightarrow> int \<Rightarrow> string" where
  "format_zero w i =
     (if i < 0 then CHR ''-'' # zero_fill (w - 1) (dec_digits (- i))
      else zero_fill w (dec_digits i))"

definition build_bundle_filename :: "int \<Rightarrow> int \<Rightarrow> string" where
  "build_bundle_filename start end = format_zero 10 start @ ''-'' @ format_zero 10 end @ ''.json.gz''"

definition build_package_name :: "int \<Rightarrow> string" where
  "build_package_name i = format_zero 3 i"

definition build_sth_name :: "int \<Rightarrow> string" where
  "build_sth_name tree_size = ''sth-'' @ format_zero 10 tree_size @ ''.json''"

definition build_info_file_name :: "int \<Rightarrow> int \<Rightarrow> string" where
  "build_info_file_name pkg_num tree_size =
     format_zero 3 pkg_num @ ''-'' @ format_zero 10 tree_size @ ''.info''"

text \<open>\<open>os.path.join(a, b)\<close> of \<open>posixpath\<close>, for two components.\<close>

definition path_join :: "string \<Rightarrow> string \<Rightarrow> string" where
  "path_join a b =
     (if b \<noteq> [] \<and> hd b = CHR ''/'' then b
      else if a = [] \<or> last a = CHR ''/'' then a @ b
      else a @ ''/'' @ b)"

text \<open>
  The body of \<open>get_bundle_list\<close> after \<open>os.listdir\<close>: the names that match are sorted,
  and the name at position \<open>i\<close> is skipped when the next name has the same group 1 and
  its group 2, read as a number, is below \<open>tree_size\<close>.
\<close>

definition filter_bundle_list :: "string list \<Rightarrow> int \<Rightarrow> string list" where
  "filter_bundle_list l tree_size =
     (let bundle_list = sort (filter bundle_name_re l);
          bundle_list_len = length bundle_list
      in concat (map (\<lambda>i.
           if i + 1 < bundle_list_len
              \<and> bundle_group1 (bundle_list ! i) = bundle_group1 (bundle_list ! (i + 1))
              \<and> int_of_digits (bundle_group2 (bundle_list ! (i + 1))) < tree_size
           then []
           else [bundle_list ! i]) [0..<bundle_list_len]))"

definition get_bundle_list :: "listing \<Rightarrow> string \<Rightarrow> int \<Rightarrow> py_error + string list" where
  "get_bundle_list fs path tree_size =
     (case fs path of
        None \<Rightarrow> Inl OSError
      | Some l \<Rightarrow> Inr (filter_bundle_list l tree_size))"

section \<open>hashbundles.py: the Merkle reduction\<close>

text \<open>
  \<open>h = hashlib.sha256(); h.update(b'\x01'); h.update(l); h.update(r); h.digest()\<close>
\<close>

definition node_hash :: "(bytes \<Rightarrow> bytes) \<Rightarrow> bytes \<Rightarrow> bytes \<Rightarrow> bytes" where
  "node_hash sha256 l r = sha256 ([0x01] @ l @ r)"

text \<open>
  One pass of the body of the \<open>while\<close> loop of \<open>get_partial_tree_hash\<close>:
  \<open>for i in range(0, max_loop, 2)\<close> hashes \<open>cur[i]\<close> with \<open>cur[i+1]\<close>, and an odd
  last element is appended unchanged (\<open>cur[-1]\<close>). The index \<open>i\<close> is \<open>2 * j\<close>.
\<close>

definition reduce_level :: "(bytes \<Rightarrow> bytes) \<Rightarrow> bytes list \<Rightarrow> bytes list" where
  "reduce_level sha256 cur =
     (let clen = length cur;
          max_loop = (if clen mod 2 = 0 then clen else clen - 1);
          new = map (\<lambda>j. node_hash sha256 (cur ! (2 * j)) (cur ! (2 * j + 1)))
                    [0..<max_loop div 2]
      in if clen mod 2 = 1 then new @ [last cur] else new)"

text \<open>
  \<open>while clen != 1\<close>: the loop may run forever, so the function is partial and
  \<open>None\<close> stands for a call that never returns.
\<close>

partial_function (option) tree_hash_loop :: "(bytes \<Rightarrow> bytes) \<Rightarrow> bytes list \<Rightarrow> bytes option" where
  "tree_hash_loop sha256 cur =
     (if length cur \<noteq> 1 then tree_hash_loop sha256 (reduce_level sha256 cur)
      else Some (cur ! 0))"

declare tree_hash_loop.simps [code]

definition get_partial_tree_hash :: "(bytes \<Rightarrow> bytes) \<Rightarrow> bytes list \<Rightarrow> bytes option" where
  "get_partial_tree_hash sha256 entry_hashes = tree_hash_loop sha256 entry_hashes"

subsection \<open>The Merkle Tree Hash of RFC 6962, as the specification words it\<close>

text \<open>
  \<open>rfc_split n\<close> is the \<open>k\<close> of the specification, the largest power of two strictly
  less than \<open>n\<close>, for \<open>n \<ge> 2\<close> (lemma \<open>rfc_split_largest\<close> below).
\<close>

fun rfc_split :: "nat \<Rightarrow> nat" where
  "rfc_split n = (if n \<le> 2 then 1 else 2 * rfc_split ((n + 1) div 2))"

declare rfc_split.simps [simp del]

lemma rfc_split_pos: "0 < rfc_split n"
  by (induction n rule: rfc_split.induct) (subst rfc_split.simps, simp)

lemma rfc_split_less: "2 \<le> n \<Longrightarrow> rfc_split n < n"
proof (induction n rule: rfc_split.induct)
  case (1 n)
  show ?case
  proof (cases "n \<le> 2")
    case True
    with 1(2) show ?thesis by (subst rfc_split.simps) simp
  next
    case False
    then have "rfc_split ((n + 1) div 2) < (n + 1) div 2"
      using 1(1) by simp
    then have "2 * rfc_split ((n + 1) div 2) < n" by linarith
    with False show ?thesis by (subst rfc_split.simps) simp
  qed
qed

text \<open>
  \<open>MTH\<close> over a list of leaf hashes: a single hash is its own tree hash, and
  \<open>MTH([d0..d(n-1)]) = H(0x01 || MTH(d0..d(k-1)) || MTH(dk..d(n-1)))\<close>. The RFC gives the
  empty list the hash of the empty string.
\<close>

function MTH :: "(bytes \<Rightarrow> bytes) \<Rightarrow> bytes list \<Rightarrow> bytes" where
  "MTH H ds =
     (if length ds < 2 then (case ds of [] \<Rightarrow> H [] | d # _ \<Rightarrow> d)
      else let k = rfc_split (length ds)
           in H ([0x01] @ MTH H (take k ds) @ MTH H (drop k ds)))"
  by pat_completeness auto
termination
proof (relation "measure (\<lambda>(H, ds). length ds)")
  show "wf (measure (\<lambda>(H, ds). length ds))" by simp
next
  fix H :: "bytes \<Rightarrow> bytes" and ds :: "bytes list" and k
  assume "\<not> length ds < 2" and "k = rfc_split (length ds)"
  then show "((H, take k ds), (H, ds)) \<in> measure (\<lambda>(H, ds). length ds)"
    using rfc_split_less [of "length ds"] by simp
next
  fix H :: "bytes \<Rightarrow> bytes" and ds :: "bytes list" and k
  assume "\<not> length ds < 2" and "k = rfc_split (length ds)"
  then show "((H, drop k ds), (H, ds)) \<in> measure (\<lambda>(H, ds). length ds)"
    using rfc_split_pos [of "length ds"] by simp
qed

declare MTH.simps [simp del]

subsection \<open>Hashing one package\<close>

text \<open>
  \<open>get_leaf_hashes\<close>: the SHA-256 of a zero byte followed by the entry's \<open>leaf_input\<close>,
  for every entry of the bundle in order. Reading the bundle (gzip, JSON, base64) is library
  code: \<open>entries\<close> are the decoded \<open>leaf_input\<close> values of the file.
\<close>

definition get_leaf_hashes :: "(bytes \<Rightarrow> bytes) \<Rightarrow> bytes list \<Rightarrow> bytes list" where
  "get_leaf_hashes sha256 entries = map (\<lambda>leaf. sha256 ([0x00] @ leaf)) entries"

text \<open>
  An info file, as the dictionary that \<open>json.loads\<close> gives for it, with its base64 values
  decoded. The files of the package root directory are an association list from file
  name to content.
\<close>

record info =
  pkg_hash :: bytes
  merkle_proof :: "bytes list"

type_synonym info_dir = "(string \<times> info) list"

definition write_tree_hash :: "string \<Rightarrow> int \<Rightarrow> int \<Rightarrow> bytes \<Rightarrow> string \<times> info" where
  "write_tree_hash pkg_root_dir pkg_num tree_size root_hash =
     (path_join pkg_root_dir (build_info_file_name pkg_num tree_size),
      \<lparr>pkg_hash = root_hash, merkle_proof = []\<rparr>)"

text \<open>
  \<open>compute_package\<close>: \<open>read_bundle\<close> gives the entries of the bundle file at a path. The
  result is \<open>None\<close> when the call does not return, an error when \<open>os.listdir\<close> raises, and
  otherwise the info file that is written.
\<close>

definition compute_package ::
  "(bytes \<Rightarrow> bytes) \<Rightarrow> listing \<Rightarrow> (string \<Rightarrow> bytes list) \<Rightarrow> int \<times> string \<times> int
     \<Rightarrow> (py_error + string \<times> info) option" where
  "compute_package sha256 fs read_bundle args =
     (case args of (pkg_num, log_dir, tree_size) \<Rightarrow>
        let package_dir = path_join log_dir (build_package_name pkg_num)
        in (case get_bundle_list fs package_dir tree_size of
             Inl e \<Rightarrow> Some (Inl e)
           | Inr bundle_list \<Rightarrow>
               (case those (map (\<lambda>bndl. get_partial_tree_hash sha256
                                          (get_leaf_hashes sha256 (read_bundle (path_join package_dir bndl))))
                                bundle_list) of
                  None \<Rightarrow> None
                | Some partial_tree_hash_list \<Rightarrow>
                    (case get_partial_tree_hash sha256 partial_tree_hash_list of
                       None \<Rightarrow> None
                     | Some tree_hash \<Rightarrow>
                         Some (Inr (write_tree_hash log_dir pkg_num tree_size tree_hash))))))"

subsection \<open>The global root and the inclusion proofs\<close>

text \<open>\<open>hash_name_re = re.compile('^[0-9]{3}-[0-9]{10}.info$')\<close>, and its two groups.\<close>

definition hash_name_re :: "string \<Rightarrow> bool" where
  "hash_name_re f =
     re_match_end (re_seq [re_digits 3, re_lit ''-'', re_digits 10, re_any, re_lit ''info''] f)"

definition hash_group1 :: "string \<Rightarrow> string" where
  "hash_group1 f = take 3 f"

definition hash_group2 :: "string \<Rightarrow> string" where
  "hash_group2 f = take 10 (drop 4 f)"

definition filter_info_files :: "string list \<Rightarrow> int \<Rightarrow> string list" where
  "filter_info_files l tree_size =
     (let info_file_list = sort (filter hash_name_re l);
          lst_len = length info_file_list
      in concat (map (\<lambda>i.
           if i < lst_len - 1
              \<and> hash_group1 (info_file_list ! i) = hash_group1 (info_file_list ! (i + 1))
              \<and> int_of_digits (hash_group2 (info_file_list ! (i + 1))) \<le> tree_size
           then []
           else if int_of_digits (hash_group2 (info_file_list ! i)) \<le> tree_size
           then [info_file_list ! i]
           else []) [0..<lst_len]))"

definition get_pkg_hash_list :: "info_dir \<Rightarrow> int \<Rightarrow> py_error + bytes list" where
  "get_pkg_hash_list dir tree_size =
     (case those (map (\<lambda>hash_file. map_option pkg_hash (map_of dir hash_file))
                      (filter_info_files (map fst dir) tree_size)) of
        None \<Rightarrow> Inl OSError
      | Some hash_list \<Rightarrow> Inr hash_list)"

text \<open>
  \<open>write_proof\<close> opens the info file of the package, which raises when it does not exist,
  and writes it back with the proof.
\<close>

definition write_proof :: "info_dir \<Rightarrow> int \<Rightarrow> int \<Rightarrow> bytes list \<Rightarrow> py_error + info_dir" where
  "write_proof dir tree_size pkg_num proof_list =
     (let filename = build_info_file_name pkg_num tree_size
      in (case map_of dir filename of
            None \<Rightarrow> Inl OSError
          | Some obj \<Rightarrow>
              Inr (map (\<lambda>(name, content).
                          if name = filename then (name, obj\<lparr>merkle_proof := proof_list\<rparr>)
                          else (name, content)) dir)))"

text \<open>
  \<open>int(math.ceil(math.log(last_package) / math.log(2)))\<close> for a positive argument, which
  the source computes in floating point. Below \<open>2 ^ 29\<close> the result is the least \<open>e\<close> with
  \<open>last_package \<le> 2 ^ e\<close>, which \<open>ceil_log2\<close> computes: at a power of two the quotient of the
  two logarithms is the exact integer (\<open>math.log(1)\<close> is zero), and elsewhere it is further
  from an integer than its rounding error. From \<open>2 ^ 29\<close> on the rounded quotient can exceed
  the integer (at \<open>2 ^ 29\<close> the result is 30): there the result is what the argument
  \<open>float_exponent\<close> gives.
\<close>

fun ceil_log2 :: "nat \<Rightarrow> nat" where
  "ceil_log2 n = (if n \<le> 1 then 0 else Suc (ceil_log2 ((n + 1) div 2)))"

declare ceil_log2.simps [simp del]

definition mask_exponent :: "(int \<Rightarrow> nat) \<Rightarrow> int \<Rightarrow> nat" where
  "mask_exponent float_exponent last_package =
     (if last_package < 2 ^ 29 then ceil_log2 (nat last_package)
      else float_exponent last_package)"

text \<open>
  The inner \<open>for pkg_num in proofs.keys()\<close>, for the pair at positions \<open>i\<close> and \<open>i + 1\<close>.
  The dictionary \<open>proofs\<close> is a list of keys with their proofs, in insertion order.
\<close>

definition note_pair ::
  "int \<Rightarrow> int \<Rightarrow> (int \<times> bytes) list \<Rightarrow> nat \<Rightarrow> (int \<times> bytes list) list \<Rightarrow> (int \<times> bytes list) list" where
  "note_pair msk mask_canceler cur i proofs =
     map (\<lambda>(pkg_num, proof_list).
            if pkg_num AND msk = fst (cur ! i) AND msk
            then (pkg_num,
                  proof_list @ [if pkg_num AND mask_canceler \<noteq> 0 then snd (cur ! i)
                                else snd (cur ! (i + 1))])
            else (pkg_num, proof_list)) proofs"

text \<open>One round of \<open>for i in range(0, max_loop, 2)\<close>, on the pair of \<open>proofs\<close> and \<open>new\<close>.\<close>

definition pair_step ::
  "(bytes \<Rightarrow> bytes) \<Rightarrow> int \<Rightarrow> int \<Rightarrow> (int \<times> bytes) list
     \<Rightarrow> (int \<times> bytes list) list \<times> (int \<times> bytes) list \<Rightarrow> nat
     \<Rightarrow> (int \<times> bytes list) list \<times> (int \<times> bytes) list" where
  "pair_step sha256 msk mask_canceler cur st i =
     (case st of (proofs, new) \<Rightarrow>
        (note_pair msk mask_canceler cur i proofs,
         new @ [(fst (cur ! i) AND msk, node_hash sha256 (snd (cur ! i)) (snd (cur ! (i + 1))))]))"

definition level_pass ::
  "(bytes \<Rightarrow> bytes) \<Rightarrow> int \<Rightarrow> int \<Rightarrow> (int \<times> bytes) list \<Rightarrow> (int \<times> bytes list) list
     \<Rightarrow> (int \<times> bytes list) list \<times> (int \<times> bytes) list" where
  "level_pass sha256 msk mask_canceler cur proofs =
     (let cur_len = length cur;
          max_loop = (if cur_len mod 2 = 0 then cur_len else cur_len - 1);
          st = foldl (pair_step sha256 msk mask_canceler cur) (proofs, [])
                     (map (\<lambda>j. 2 * j) [0..<max_loop div 2])
      in (fst st, if cur_len mod 2 = 1 then snd st @ [last cur] else snd st))"

lemma pair_steps_length:
  "length (snd (foldl (pair_step sha256 msk mc cur) st js)) = length (snd st) + length js"
  by (induction js arbitrary: st) (simp_all add: pair_step_def split: prod.splits)

lemma level_pass_length:
  "length (snd (level_pass sha256 msk mc cur proofs)) = (length cur + 1) div 2"
  by (simp add: level_pass_def Let_def pair_steps_length) presburger

text \<open>\<open>while cur_len > 1\<close>, on \<open>mask\<close>, \<open>mask_canceler\<close>, \<open>cur\<close> and \<open>proofs\<close>.\<close>

function proofs_loop ::
  "(bytes \<Rightarrow> bytes) \<Rightarrow> int \<Rightarrow> int \<Rightarrow> (int \<times> bytes) list \<Rightarrow> (int \<times> bytes list) list
     \<Rightarrow> (int \<times> bytes) list \<times> (int \<times> bytes list) list" where
  "proofs_loop sha256 msk mask_canceler cur proofs =
     (if length cur > 1
      then let msk' = msk XOR mask_canceler;
               st = level_pass sha256 msk' mask_canceler cur proofs
           in proofs_loop sha256 msk' (push_bit 1 mask_canceler) (snd st) (fst st)
      else (cur, proofs))"
  by pat_completeness auto
termination
proof (relation "measure (\<lambda>(sha256, msk, mc, cur, proofs). length cur)")
  show "wf (measure (\<lambda>(sha256 :: bytes \<Rightarrow> bytes, msk :: int, mc :: int,
                        cur :: (int \<times> bytes) list, proofs :: (int \<times> bytes list) list). length cur))"
    by simp
next
  fix sha256 :: "bytes \<Rightarrow> bytes" and msk mc :: int and cur :: "(int \<times> bytes) list"
    and proofs :: "(int \<times> bytes list) list" and msk' st
  assume "1 < length cur" and "st = level_pass sha256 msk' mc cur proofs"
  then show "((sha256, msk', push_bit 1 mc, snd st, fst st), (sha256, msk, mc, cur, proofs))
      \<in> measure (\<lambda>(sha256, msk, mc, cur, proofs). length cur)"
    by (simp add: level_pass_length)
qed

declare proofs_loop.simps [simp del]

text \<open>The last loop of \<open>compute_proofs\<close>: \<open>write_proof\<close> for every item, until one raises.\<close>

fun write_proofs :: "info_dir \<Rightarrow> int \<Rightarrow> (int \<times> bytes list) list \<Rightarrow> (py_error option) \<times> info_dir" where
  "write_proofs dir tree_size [] = (None, dir)"
| "write_proofs dir tree_size ((pkg_num, proof_list) # rest) =
     (case write_proof dir tree_size pkg_num proof_list of
        Inl e \<Rightarrow> (Some e, dir)
      | Inr dir' \<Rightarrow> write_proofs dir' tree_size rest)"

text \<open>
  \<open>compute_proofs\<close> returns the root (before \<open>base64.b64encode\<close>) or the exception raised,
  together with the directory as the call leaves it.
\<close>

definition compute_proofs ::
  "(bytes \<Rightarrow> bytes) \<Rightarrow> (int \<Rightarrow> nat) \<Rightarrow> info_dir \<Rightarrow> int \<Rightarrow> int \<Rightarrow> int
     \<Rightarrow> (py_error + bytes) \<times> info_dir" where
  "compute_proofs sha256 float_exponent dir tree_size start_package last_package =
     (case get_pkg_hash_list dir tree_size of
        Inl e \<Rightarrow> (Inl e, dir)
      | Inr hash_list \<Rightarrow>
          let numbered_hash_list = zip (map int [0..<length hash_list]) hash_list;
              proofs = map (\<lambda>i. (i, [])) [start_package..last_package];
              msk = (if last_package > 0
                      then push_bit (mask_exponent float_exponent last_package) 1 - 1
                      else 1);
              fin = proofs_loop sha256 msk 1 numbered_hash_list proofs
          in (case write_proofs dir tree_size (snd fin) of
                (Some e, dir') \<Rightarrow> (Inl e, dir')
              | (None, dir') \<Rightarrow>
                  (case fst fin of
                     [] \<Rightarrow> (Inl IndexError, dir')
                   | c # _ \<Rightarrow> (Inr (snd c), dir'))))"

section \<open>getct.py: the resume index\<close>

text \<open>\<open>package_name_re = re.compile('^[0-9]{3}$')\<close>\<close>

definition package_name_re :: "string \<Rightarrow> bool" where
  "package_name_re f = re_match_end (re_seq [re_digits 3] f)"

text \<open>
  \<open>int(s)\<close> for a Python string of 8-bit characters: blanks are stripped at both ends
  (the six ASCII blanks, and the code points 0x85 and 0xA0), a sign may come first, and the
  digits may be separated by single underscores. Anything else, also a string with one of
  the separators 0x1C to 0x1F, raises \<open>ValueError\<close>, here \<open>None\<close>.
\<close>

definition is_space :: "char \<Rightarrow> bool" where
  "is_space c = (of_char c \<in> set [9, 10, 11, 12, 13, 32, 133, 160 :: nat])"

definition strip :: "string \<Rightarrow> string" where
  "strip s = rev (dropWhile is_space (rev (dropWhile is_space s)))"

fun underscores_ok :: "string \<Rightarrow> bool" where
  "underscores_ok [] = False"
| "underscores_ok [c] = is_digit c"
| "underscores_ok (c # d # r) =
     (if is_digit c then underscores_ok (d # r)
      else c = CHR ''_'' \<and> is_digit d \<and> underscores_ok (d # r))"

definition py_int_unsigned :: "string \<Rightarrow> int option" where
  "py_int_unsigned s =
     (if s \<noteq> [] \<and> is_digit (hd s) \<and> underscores_ok s
      then Some (int_of_digits (filter (\<lambda>c. c \<noteq> CHR ''_'') s))
      else None)"

definition py_int :: "string \<Rightarrow> int option" where
  "py_int s =
     (case strip s of
        [] \<Rightarrow> None
      | c # r \<Rightarrow>
          if c = CHR ''-'' then map_option uminus (py_int_unsigned r)
          else if c = CHR ''+'' then py_int_unsigned r
          else py_int_unsigned (c # r))"

text \<open>\<open>s.split(os.sep)\<close>, with \<open>os.sep = '/'\<close>: never an empty list.\<close>

fun split_sep :: "string \<Rightarrow> string list" where
  "split_sep [] = [[]]"
| "split_sep (c # cs) =
     (if c = CHR ''/'' then [] # split_sep cs
      else (case split_sep cs of
              [] \<Rightarrow> [[c]]
            | w # ws \<Rightarrow> (c # w) # ws))"

text \<open>
  \<open>discover_start_index\<close>. Only the listing of the root directory is inside the
  \<open>try\<close>; a failing listing of the last package directory raises.
\<close>

definition discover_start_index :: "listing \<Rightarrow> string \<Rightarrow> int \<Rightarrow> int \<Rightarrow> py_error + int" where
  "discover_start_index fs package_root_dir package_size bundle_size =
     (case fs package_root_dir of
        None \<Rightarrow> Inr 0
      | Some names \<Rightarrow>
          let package_list = sort (filter package_name_re names)
          in if length package_list = 0 then Inr 0
             else let last_package_dir = path_join package_root_dir (last package_list)
                  in (case fs last_package_dir of
                       None \<Rightarrow> Inl OSError
                     | Some bundle_names \<Rightarrow>
                         let bundle_list = sort (filter bundle_name_re bundle_names)
                         in if length bundle_list = 0
                            then (case py_int (last (split_sep package_root_dir)) of
                                    None \<Rightarrow> Inl ValueError
                                  | Some n \<Rightarrow> Inr (n * package_size * bundle_size))
                            else let last_bundle = last bundle_list;
                                     bundle_start = int_of_digits (bundle_group1 last_bundle);
                                     bundle_end = int_of_digits (bundle_group2 last_bundle)
                                 in if bundle_end - bundle_start + 1 = bundle_size
                                    then Inr (bundle_end + 1)
                                    else Inr bundle_start))"

section \<open>getct.py: fetching and storing the STH\<close>

subsection \<open>The libraries behind \<open>get_ct\<close>\<close>

text \<open>
  The modules \<open>json\<close>, \<open>base64\<close>, \<open>struct\<close> and \<open>cryptography\<close> are library code. What
  \<open>get_ct\<close> takes from them is a record of functions, over the type \<open>'j\<close> of the objects that
  \<open>json.loads\<close> returns and the type \<open>'k\<close> of public keys, so that every result below holds for
  the libraries as they are:
  \<^item> \<open>loads s\<close> is \<open>json.loads(s.decode('UTF-8'))\<close>, and \<open>None\<close> when that raises;
  \<^item> \<open>dumps obj\<close> is \<open>bytes(json.dumps(obj), 'UTF-8')\<close>;
  \<^item> \<open>sth_tree_size obj\<close> is \<open>obj['tree_size']\<close>. The objects of the model are those in which
    it is an integer: \<open>verify_sth\<close> packs it as an unsigned 64-bit integer
    (\<open>build_verified_data\<close>) and raises otherwise, and \<open>write_sth\<close> and the rest of \<open>get_ct\<close> are
    reached only after \<open>verify_sth\<close> has returned;
  \<^item> \<open>sth_signature obj\<close> is \<open>base64.b64decode(bytes(obj['tree_head_signature'], 'UTF-8'))\<close>,
    and \<open>None\<close> when that raises;
  \<^item> \<open>find_key log_list_file url\<close> is the public key of the log listed with this \<open>url\<close> in the
    log list file, as \<open>get_public_key\<close> loads it, and \<open>None\<close> when the log is not listed or its
    key does not load;
  \<^item> \<open>signature_verifies pk sig_algo sig obj\<close> tells whether the verifier that the library makes
    from \<open>pk\<close> and \<open>sig\<close> for the algorithm \<open>sig_algo\<close>, fed with \<open>build_verified_data(obj)\<close>,
    returns from \<open>verify()\<close>; it raises otherwise.
\<close>

record ('j, 'k) pylib =
  loads :: "string \<Rightarrow> 'j option"
  dumps :: "'j \<Rightarrow> string"
  sth_tree_size :: "'j \<Rightarrow> int"
  sth_signature :: "'j \<Rightarrow> bytes option"
  find_key :: "string \<Rightarrow> string \<Rightarrow> 'k option"
  signature_verifies :: "'k \<Rightarrow> int \<Rightarrow> bytes \<Rightarrow> 'j \<Rightarrow> bool"

subsection \<open>\<open>get_sth\<close>, \<open>verify_sth\<close>, \<open>write_sth\<close>, \<open>handle_new_sth\<close> and \<open>get_ct\<close>\<close>

text \<open>
  What a call does to the network and the disk is a list of effects, in the order in which
  they happen. The request names the log and the command of the \<open>/ct/v1/\<close> path.
\<close>

datatype effect = Mkdir string | Request string string | WriteFile string string

datatype ct_error =
    BundleSizeNotPowerOfTwo
  | CouldNotFetchSTH
  | ResponseNotParsed
  | LogKeyNotFound
  | SignatureNotDecoded
  | SignatureTooShort
  | InvalidSignatureFormat
  | InvalidSignature
  | NothingToDo
  | FetchFailed string

text \<open>
  \<open>get_sth\<close>: one GET request, whose reply is a status and a body; a status other than 200
  raises, and the body goes through \<open>json.loads\<close>.
\<close>

definition get_sth :: "('j, 'k) pylib \<Rightarrow> int \<times> string \<Rightarrow> string \<Rightarrow> (ct_error + 'j) \<times> effect list" where
  "get_sth lib reply url =
     (case reply of (status, s) \<Rightarrow>
        (if status \<noteq> 200 then Inl CouldNotFetchSTH
         else (case loads lib s of None \<Rightarrow> Inl ResponseNotParsed | Some obj \<Rightarrow> Inr obj),
         [Request url ''get-sth'']))"

text \<open>
  \<open>get_verifier\<close>, on the decoded signature field \<open>bths\<close>: \<open>struct.unpack('>BBH', bths[:4])\<close>
  needs four bytes; then the hash algorithm has to be 4, the signature algorithm 3 or 1,
  and the announced length the length of the rest. The verifier object itself is made by
  the library: the result here is what it is made from, the algorithm and the signature.
\<close>

definition get_verifier :: "bytes \<Rightarrow> ct_error + int \<times> bytes" where
  "get_verifier bths =
     (if length (take 4 bths) \<noteq> 4 then Inl SignatureTooShort
      else let hash_algo = uint (bths ! 0);
               sig_algo = uint (bths ! 1);
               sig_len = 256 * uint (bths ! 2) + uint (bths ! 3);
               sig = drop 4 bths
           in if hash_algo \<noteq> 4 \<or> (sig_algo \<noteq> 3 \<and> sig_algo \<noteq> 1) \<or> sig_len \<noteq> int (length sig)
              then Inl InvalidSignatureFormat
              else Inr (sig_algo, sig))"

text \<open>
  \<open>verify_sth\<close>: the key of the log is looked up first, then the signature is taken apart by
  \<open>get_verifier\<close>, then the library checks it.
\<close>

definition verify_sth :: "('j, 'k) pylib \<Rightarrow> string \<Rightarrow> string \<Rightarrow> 'j \<Rightarrow> ct_error + unit" where
  "verify_sth lib log_list_file url obj =
     (case find_key lib log_list_file url of
        None \<Rightarrow> Inl LogKeyNotFound
      | Some pk \<Rightarrow>
          (case sth_signature lib obj of
             None \<Rightarrow> Inl SignatureNotDecoded
           | Some bths \<Rightarrow>
               (case get_verifier bths of
                  Inl err \<Rightarrow> Inl err
                | Inr (sig_algo, sig) \<Rightarrow>
                    if signature_verifies lib pk sig_algo sig obj then Inr ()
                    else Inl InvalidSignature)))"

text \<open>
  \<open>write_sth\<close>: the file is named after \<open>sth['tree_size']\<close> and its content is
  \<open>bytes(json.dumps(sth), 'UTF-8')\<close>.
\<close>

definition write_sth :: "('j, 'k) pylib \<Rightarrow> string \<Rightarrow> 'j \<Rightarrow> effect list" where
  "write_sth lib log_dir sth =
     [WriteFile (path_join log_dir (build_sth_name (sth_tree_size lib sth))) (dumps lib sth)]"

text \<open>\<open>handle_new_sth\<close>: the exceptions of \<open>verify_sth\<close> go up, and nothing is written then.\<close>

definition handle_new_sth ::
  "('j, 'k) pylib \<Rightarrow> 'j \<Rightarrow> string \<Rightarrow> string \<Rightarrow> string \<Rightarrow> (ct_error + unit) \<times> effect list" where
  "handle_new_sth lib sth package_root_dir log_list_file url =
     (case verify_sth lib log_list_file url sth of
        Inl err \<Rightarrow> (Inl err, [])
      | Inr _ \<Rightarrow> (Inr (), write_sth lib package_root_dir sth))"

text \<open>\<open>bundle_size > 0 and ((bundle_size & (bundle_size - 1)) == 0)\<close>\<close>

definition bundle_size_ok :: "int \<Rightarrow> bool" where
  "bundle_size_ok bundle_size = (bundle_size > 0 \<and> bundle_size AND (bundle_size - 1) = 0)"

text \<open>
  \<open>get_ct\<close>, up to the point where the entries are fetched. What follows in the source
  (the detection of the step size, the loop over \<open>get_entries\<close> and the bundles it writes) is
  the argument \<open>fetch\<close>: given the STH, it gives the message of the exception it raises, if
  any, and its own effects. \<open>step_size\<close> and \<open>package_size\<close> are used only there.
\<close>

definition get_ct ::
  "('j, 'k) pylib \<Rightarrow> int \<times> string \<Rightarrow> ('j \<Rightarrow> string option \<times> effect list)
     \<Rightarrow> string \<Rightarrow> string \<Rightarrow> string \<Rightarrow> int \<Rightarrow> int \<Rightarrow> (ct_error + 'j) \<times> effect list" where
  "get_ct lib reply fetch pkg_root_dir url log_list_file start_index bundle_size =
     (if \<not> bundle_size_ok bundle_size then (Inl BundleSizeNotPowerOfTwo, [])
      else let e1 = [Mkdir pkg_root_dir]
           in (case get_sth lib reply url of
                (Inl err, e2) \<Rightarrow> (Inl err, e1 @ e2)
              | (Inr sth, e2) \<Rightarrow>
                  (case handle_new_sth lib sth pkg_root_dir log_list_file url of
                     (Inl err, e3) \<Rightarrow> (Inl err, e1 @ e2 @ e3)
                   | (Inr _, e3) \<Rightarrow>
                       if start_index \<ge> 0 \<and> start_index \<ge> sth_tree_size lib sth
                       then (Inl NothingToDo, e1 @ e2 @ e3)
                       else (case fetch sth of
                               (Some msg, e4) \<Rightarrow> (Inl (FetchFailed msg), e1 @ e2 @ e3 @ e4)
                             | (None, e4) \<Rightarrow> (Inr sth, e1 @ e2 @ e3 @ e4)))))"

section \<open>bittorrent.py: piece length and pieces\<close>

text \<open>An entry of the file list of a torrent, as \<open>get_file_list\<close> builds it.\<close>

record file_entry =
  flength :: int
  fpath :: "string list"

text \<open>
  \<open>total_size = sum([f['length'] for f in files])\<close> and
  \<open>piece_length = max(1 << 15, ((total_size//1500) >> 13) << 13)\<close> in \<open>create_torrent\<close>.
\<close>

definition total_size :: "file_entry list \<Rightarrow> int" where
  "total_size files = sum_list (map flength files)"

definition piece_length_of :: "int \<Rightarrow> int" where
  "piece_length_of tsize = max (push_bit 15 1) (push_bit 13 (drop_bit 13 (tsize div 1500)))"

definition piece_length :: "file_entry list \<Rightarrow> int" where
  "piece_length files = piece_length_of (total_size files)"

text \<open>
  The \<open>while len(buf) != 0\<close> loop of \<open>get_pieces\<close> over one open file: \<open>rest\<close> is what is
  left to read, \<open>fd.read(piece_length)\<close> takes its first \<open>piece_length\<close> bytes. The state is
  the buffer \<open>s\<close> and the digests yielded so far.
\<close>

function read_loop ::
  "(bytes \<Rightarrow> bytes) \<Rightarrow> nat \<Rightarrow> bytes \<times> bytes list \<Rightarrow> bytes \<Rightarrow> bytes \<times> bytes list" where
  "read_loop sha1 piece_len st rest =
     (let buf = take piece_len rest
      in if length buf \<noteq> 0
         then let s = fst st @ buf
              in if length s \<ge> piece_len
                 then read_loop sha1 piece_len (drop piece_len s, snd st @ [sha1 (take piece_len s)])
                        (drop piece_len rest)
                 else read_loop sha1 piece_len (s, snd st) (drop piece_len rest)
         else st)"
  by pat_completeness auto
termination
  by (relation "measure (\<lambda>(sha1, piece_len, st, rest). length rest)") auto

declare read_loop.simps [simp del]

text \<open>
  \<open>get_pieces\<close>: the files are given by their contents, in the order of the file list;
  after the last file one more digest is yielded, of what is left in \<open>s\<close>.
\<close>

definition get_pieces :: "(bytes \<Rightarrow> bytes) \<Rightarrow> bytes list \<Rightarrow> nat \<Rightarrow> bytes list" where
  "get_pieces sha1 files piece_len =
     (let st = foldl (read_loop sha1 piece_len) ([], []) files
      in snd st @ [sha1 (take piece_len (fst st))])"

section \<open>Auxiliary definitions\<close>

text \<open>
  The pass of \<open>reduce_level\<close> by recursion on the list instead of indices; the two agree
  (lemma \<open>reduce_level_pair_up\<close>).
\<close>

fun pair_up :: "(bytes \<Rightarrow> bytes) \<Rightarrow> bytes list \<Rightarrow> bytes list" where
  "pair_up H (a # b # r) = node_hash H a b # pair_up H r"
| "pair_up H [a] = [a]"
| "pair_up H [] = []"

text \<open>
  Folding an audit path, as the specification describes the levels: the element at an
  odd position is hashed with the path element on its left, the element at an even
  position with the one on its right, and an odd trailing element goes up unchanged and
  takes nothing from the path. \<open>width\<close> is the number of elements of the level.
\<close>

function audit_fold :: "(bytes \<Rightarrow> bytes) \<Rightarrow> nat \<Rightarrow> nat \<Rightarrow> bytes \<Rightarrow> bytes list \<Rightarrow> bytes" where
  "audit_fold H pos width h path =
     (if width \<le> 1 then h
      else if odd pos then
        (case path of
           [] \<Rightarrow> h
         | p # ps \<Rightarrow> audit_fold H (pos div 2) ((width + 1) div 2) (node_hash H p h) ps)
      else if pos + 1 < width then
        (case path of
           [] \<Rightarrow> h
         | p # ps \<Rightarrow> audit_fold H (pos div 2) ((width + 1) div 2) (node_hash H h p) ps)
      else audit_fold H (pos div 2) ((width + 1) div 2) h path)"
  by pat_completeness auto
termination
  by (relation "measure (\<lambda>(H, pos, width, h, path). width)") auto

declare audit_fold.simps [simp del]

subsection \<open>Sample arguments\<close>

text \<open>
  Sample arguments for the functions that take library code as an argument: a digest
  that returns its input, a fetch that does nothing, and a disk with one log.
\<close>

definition plain_digest :: "bytes \<Rightarrow> bytes" where
  "plain_digest bs = bs"

definition no_fetch :: "'j \<Rightarrow> string option \<times> effect list" where
  "no_fetch sth = (None, [])"

definition sample_fs :: listing where
  "sample_fs path =
     (if path = ''/tmp/log'' then Some [''000'', ''001'', ''sth-0000000007.json'']
      else if path = ''/tmp/log/000''
      then Some [''0000000000-0000000003.json.gz'', ''0000000004-0000000005.json.gz'',
                 ''0000000004-0000000006.json.gz'']
      else if path = ''/tmp/log/001'' then Some []
      else None)"

definition sample_bundle :: "string \<Rightarrow> bytes list" where
  "sample_bundle path =
     (if path = ''/tmp/log/000/0000000000-0000000003.json.gz'' then [[10], [11], [12], [13]]
      else if path = ''/tmp/log/000/0000000004-0000000006.json.gz'' then [[14], [15], [16]]
      else [])"

text \<open>
  Disks for \<open>discover_start_index\<close>: a log whose last package holds a complete bundle of
  1024 entries after an older partial one, and two logs whose last package directory is
  empty, one of them stored under a name that is a number.
\<close>

definition sample_resume_fs :: listing where
  "sample_resume_fs path =
     (if path = ''/tmp/ct.example.org_log''
      then Some [''sth-0003146752.json'', ''003'', ''002'', ''002-0003146752.info'']
      else if path = ''/tmp/ct.example.org_log/003''
      then Some [''0003145728-0003146751.json.gz'', ''0003145728-0003146000.json.gz'']
      else None)"

definition sample_crashed_fs :: listing where
  "sample_crashed_fs path =
     (if path = ''/tmp/ct.example.org_log'' \<or> path = ''/tmp/7'' then Some [''002'', ''003'']
      else if path = ''/tmp/ct.example.org_log/003'' \<or> path = ''/tmp/7/003'' then Some []
      else None)"

text \<open>
  A package directory after two runs: the first stopped at a tree of 512 entries and left a
  partial bundle, the second completed the bundle.
\<close>

definition sample_regrown_fs :: listing where
  "sample_regrown_fs path =
     (if path = ''/tmp/log/000''
      then Some [''0000000000-0000001023.json.gz'', ''0000000000-0000000511.json.gz'']
      else None)"

subsection \<open>A sample library for \<open>get_ct\<close>\<close>

text \<open>
  To evaluate \<open>get_ct\<close> on a sample response, the library functions are given for the
  responses of one shape: a JSON object whose members are integers and strings of printable
  ASCII without escapes, as a get-sth response is. On such a text \<open>json.loads\<close> gives a
  dictionary from keys to integers and strings, here a list of pairs in insertion order,
  and \<open>flat_json_loads\<close> gives that dictionary. It is \<open>None\<close> on every other text, which
  says nothing about \<open>json.loads\<close> there: no theorem about all responses uses these
  functions.
\<close>

datatype jval = JInt int | JStr string

type_synonym jobj = "(string \<times> jval) list"

datatype jtoken = TLBrace | TRBrace | TColon | TComma | TStr string | TInt int

datatype lex_state = Idle | InStr string | InNum string

definition dquote :: char where
  "dquote = CHR 0x22"

definition backslash :: char where
  "backslash = CHR 0x5C"

definition json_ws :: "char \<Rightarrow> bool" where
  "json_ws c = (of_char c \<in> set [32, 9, 10, 13 :: nat])"

text \<open>A JSON integer: an optional minus sign, then \<open>0\<close> or digits that do not start with \<open>0\<close>.\<close>

definition json_int :: "string \<Rightarrow> int option" where
  "json_int s =
     (let ds = (if s \<noteq> [] \<and> hd s = CHR ''-'' then tl s else s)
      in if ds \<noteq> [] \<and> list_all is_digit ds \<and> (length ds = 1 \<or> hd ds \<noteq> CHR ''0'')
         then Some (if s \<noteq> [] \<and> hd s = CHR ''-'' then - int_of_digits ds else int_of_digits ds)
         else None)"

definition emit :: "jtoken \<Rightarrow> jtoken list option \<Rightarrow> jtoken list option" where
  "emit t r = map_option (\<lambda>ts. t # ts) r"

function json_lex :: "lex_state \<Rightarrow> string \<Rightarrow> jtoken list option" where
  "json_lex Idle [] = Some []"
| "json_lex Idle (c # cs) =
     (if json_ws c then json_lex Idle cs
      else if c = CHR ''{'' then emit TLBrace (json_lex Idle cs)
      else if c = CHR ''}'' then emit TRBrace (json_lex Idle cs)
      else if c = CHR '':'' then emit TColon (json_lex Idle cs)
      else if c = CHR '','' then emit TComma (json_lex Idle cs)
      else if c = dquote then json_lex (InStr []) cs
      else if c = CHR ''-'' \<or> is_digit c then json_lex (InNum [c]) cs
      else None)"
| "json_lex (InStr acc) [] = None"
| "json_lex (InStr acc) (c # cs) =
     (if c = dquote then emit (TStr acc) (json_lex Idle cs)
      else if c = backslash \<or> of_char c < (32 :: nat) \<or> (126 :: nat) < of_char c then None
      else json_lex (InStr (acc @ [c])) cs)"
| "json_lex (InNum acc) [] = map_option (\<lambda>n. [TInt n]) (json_int acc)"
| "json_lex (InNum acc) (c # cs) =
     (if is_digit c then json_lex (InNum (acc @ [c])) cs
      else if c \<in> set ''.eE'' then None
      else (case json_int acc of
              None \<Rightarrow> None
            | Some n \<Rightarrow> emit (TInt n) (json_lex Idle (c # cs))))"
  by pat_completeness auto
termination
  by (relation "measure (\<lambda>(st, s). 2 * length s + (case st of Idle \<Rightarrow> 0 | _ \<Rightarrow> 1))") auto

fun json_value :: "jtoken \<Rightarrow> jval option" where
  "json_value (TStr s) = Some (JStr s)"
| "json_value (TInt n) = Some (JInt n)"
| "json_value _ = None"

text \<open>The members after the opening brace, up to the closing brace that ends the text.\<close>

fun json_members :: "jtoken list \<Rightarrow> (string \<times> jval) list option" where
  "json_members (TStr k # TColon # v # rest) =
     (case json_value v of
        None \<Rightarrow> None
      | Some x \<Rightarrow>
          (case rest of
             [TRBrace] \<Rightarrow> Some [(k, x)]
           | TComma # rest' \<Rightarrow> map_option (\<lambda>ms. (k, x) # ms) (json_members rest')
           | _ \<Rightarrow> None))"
| "json_members _ = None"

text \<open>A Python dictionary keeps the place of a key's first insertion and its last value.\<close>

definition dict_set :: "jobj \<Rightarrow> string \<times> jval \<Rightarrow> jobj" where
  "dict_set d kv =
     (if fst kv \<in> set (map fst d)
      then map (\<lambda>(k, v). if k = fst kv then kv else (k, v)) d
      else d @ [kv])"

definition flat_json_loads :: "string \<Rightarrow> jobj option" where
  "flat_json_loads s =
     (case json_lex Idle s of
        None \<Rightarrow> None
      | Some ts \<Rightarrow>
          (case ts of
             [TLBrace, TRBrace] \<Rightarrow> Some []
           | TLBrace # ms \<Rightarrow> map_option (foldl dict_set []) (json_members ms)
           | _ \<Rightarrow> None))"

text \<open>
  \<open>json.dumps\<close> of such a dictionary, with the defaults of the library: members separated by
  a comma and a space, key and value by a colon and a space, strings escaped to ASCII.
\<close>

definition hex_digit :: "nat \<Rightarrow> char" where
  "hex_digit n = ''0123456789abcdef'' ! (n mod 16)"

definition json_escape :: "char \<Rightarrow> string" where
  "json_escape c =
     (if c = dquote then [backslash, dquote]
      else if c = backslash then [backslash, backslash]
      else if c = CHR 0x0A then [backslash, CHR ''n'']
      else if c = CHR 0x0D then [backslash, CHR ''r'']
      else if c = CHR 0x09 then [backslash, CHR ''t'']
      else if c = CHR 0x08 then [backslash, CHR ''b'']
      else if c = CHR 0x0C then [backslash, CHR ''f'']
      else if of_char c < (32 :: nat) \<or> (126 :: nat) < of_char c
      then [backslash, CHR ''u'', CHR ''0'', CHR ''0'',
            hex_digit (of_char c div 16), hex_digit (of_char c)]
      else [c])"

definition json_string :: "string \<Rightarrow> string" where
  "json_string s = [dquote] @ concat (map json_escape s) @ [dquote]"

definition py_str_int :: "int \<Rightarrow> string" where
  "py_str_int n = (if n < 0 then CHR ''-'' # dec_digits (- n) else dec_digits n)"

fun json_dumps_value :: "jval \<Rightarrow> string" where
  "json_dumps_value (JInt n) = py_str_int n"
| "json_dumps_value (JStr s) = json_string s"

fun join_with :: "string \<Rightarrow> string list \<Rightarrow> string" where
  "join_with sep [] = []"
| "join_with sep [x] = x"
| "join_with sep (x # y # r) = x @ sep @ join_with sep (y # r)"

definition flat_json_dumps :: "jobj \<Rightarrow> string" where
  "flat_json_dumps d =
     ''{'' @ join_with '', '' (map (\<lambda>(k, v). json_string k @ '': '' @ json_dumps_value v) d) @ ''}''"

text \<open>
  \<open>base64.b64decode\<close> on a text of whole groups of four characters of the standard
  alphabet, the last group padded with \<open>=\<close>; \<open>None\<close> on any other text.
\<close>

fun b64_index :: "char \<Rightarrow> string \<Rightarrow> int \<Rightarrow> int option" where
  "b64_index c [] i = None"
| "b64_index c (x # xs) i = (if c = x then Some i else b64_index c xs (i + 1))"

definition b64_value :: "char \<Rightarrow> int option" where
  "b64_value c =
     b64_index c ''ABCDEFGHIJKLMNOPQRSTUVWXYZabcdefghijklmnopqrstuvwxyz0123456789+/'' 0"

fun b64decode :: "string \<Rightarrow> bytes option" where
  "b64decode [] = Some []"
| "b64decode (a # b # c # d # rest) =
     (case (b64_value a, b64_value b) of
        (Some x, Some y) \<Rightarrow>
          if c = CHR ''='' \<and> d = CHR ''='' \<and> rest = []
          then Some [word_of_int (4 * x + y div 16)]
          else (case b64_value c of
                  None \<Rightarrow> None
                | Some z \<Rightarrow>
                    if d = CHR ''='' \<and> rest = []
                    then Some [word_of_int (4 * x + y div 16),
                               word_of_int (16 * (y mod 16) + z div 4)]
                    else (case b64_value d of
                            None \<Rightarrow> None
                          | Some w \<Rightarrow>
                              map_option (\<lambda>bs. word_of_int (4 * x + y div 16)
                                                # word_of_int (16 * (y mod 16) + z div 4)
                                                # word_of_int (64 * (z mod 4) + w) # bs)
                                         (b64decode rest)))
      | _ \<Rightarrow> None)"
| "b64decode _ = None"

definition flat_tree_size :: "jobj \<Rightarrow> int" where
  "flat_tree_size obj = (case map_of obj ''tree_size'' of Some (JInt n) \<Rightarrow> n | _ \<Rightarrow> 0)"

definition flat_signature :: "jobj \<Rightarrow> bytes option" where
  "flat_signature obj =
     (case map_of obj ''tree_head_signature'' of Some (JStr s) \<Rightarrow> b64decode s | _ \<Rightarrow> None)"

text \<open>
  A log list with one log, \<open>ct.example.org/log\<close>, whose key is an ECDSA key on the curve
  P-256, in base64 as the log list holds it.
\<close>

definition sample_log_key :: string where
  "sample_log_key =
     ''MFkwEwYHKoZIzj0CAQYIKoZIzj0DAQcDQgAEBSjgYKRjKt/RcouRraZAxt/8WRPcF6uHbZOso1Dv6iSJ''
     @ ''8xzKVzqbB7zzQSxuFCb38z6YptptbRLss9Iwq2A3Wg==''"

definition sample_find_key :: "string \<Rightarrow> string \<Rightarrow> string option" where
  "sample_find_key log_list_file url =
     (if url = ''ct.example.org/log'' then Some sample_log_key else None)"

text \<open>
  A get-sth response in the compact form that log servers send, for a tree of seven
  entries. Its \<open>tree_head_signature\<close> is an ECDSA signature with SHA-256, valid under
  \<open>sample_log_key\<close>, of the tree head that \<open>build_verified_data\<close> packs from it (version 0,
  signature type 1, the timestamp, the tree size and the 32 bytes of the root hash), after
  the header \<open>04 03 00 46\<close>. The elliptic curve arithmetic is not computed here:
  \<open>sample_signature_verifies\<close> holds for this key, this STH and this signature, for which
  \<open>verify()\<close> of the library returns, and for nothing else.
\<close>

definition quoted :: "string \<Rightarrow> string" where
  "quoted s = [dquote] @ s @ [dquote]"

definition sample_root_hash :: string where
  "sample_root_hash = ''zx8epWCRBGye8qYV0rNep4oM4UWfFUtYQOyq0wyJalo=''"

definition sample_signature :: string where
  "sample_signature =
     ''BAMARjBEAiA7zlCn8DaOp2D5JhsGmq4HjoMkkBmdicVRpYDy7lE2/gIgNWuqOMyR2vaONleXpFrtmEVC''
     @ ''vm+FQL/9HlbUVY9mOSs=''"

definition sample_sth_body :: string where
  "sample_sth_body =
     ''{'' @ quoted ''tree_size'' @ '':7,'' @ quoted ''timestamp'' @ '':1478250000000,''
       @ quoted ''sha256_root_hash'' @ '':'' @ quoted sample_root_hash @ '',''
       @ quoted ''tree_head_signature'' @ '':'' @ quoted sample_signature @ ''}''"

definition sample_sth :: jobj where
  "sample_sth =
     [(''tree_size'', JInt 7), (''timestamp'', JInt 1478250000000),
      (''sha256_root_hash'', JStr sample_root_hash),
      (''tree_head_signature'', JStr sample_signature)]"

definition sample_signature_verifies :: "string \<Rightarrow> int \<Rightarrow> bytes \<Rightarrow> jobj \<Rightarrow> bool" where
  "sample_signature_verifies pk sig_algo sig obj =
     (pk = sample_log_key \<and> sig_algo = 3 \<and> obj = sample_sth
      \<and> Some sig = map_option (drop 4) (b64decode sample_signature))"

definition sample_lib :: "(jobj, string) pylib" where
  "sample_lib =
     \<lparr>loads = flat_json_loads, dumps = flat_json_dumps, sth_tree_size = flat_tree_size,
      sth_signature = flat_signature, find_key = sample_find_key,
      signature_verifies = sample_signature_verifies\<rparr>"

text \<open>What \<open>json.dumps\<close> gives for the object of \<open>sample_sth_body\<close>.\<close>

definition sample_sth_written :: string where
  "sample_sth_written =
     ''{'' @ quoted ''tree_size'' @ '': 7, '' @ quoted ''timestamp'' @ '': 1478250000000, ''
       @ quoted ''sha256_root_hash'' @ '': '' @ quoted sample_root_hash @ '', ''
       @ quoted ''tree_head_signature'' @ '': '' @ quoted sample_signature @ ''}''"

section \<open>The Merkle reduction is the Merkle Tree Hash of RFC 6962\<close>

lemma rfc_split_step: "2 < n \<Longrightarrow> rfc_split n = 2 * rfc_split ((n + 1) div 2)"
  by (subst rfc_split.simps) simp

text \<open>
  \<open>rfc_split n\<close> is a power of two below \<open>n\<close> whose double is not below \<open>n\<close>: the
  largest power of two strictly less than \<open>n\<close>.
\<close>

lemma rfc_split_largest:
  "2 \<le> n \<Longrightarrow> (\<exists>e. rfc_split n = 2 ^ e) \<and> rfc_split n < n \<and> n \<le> 2 * rfc_split n"
proof (induction n rule: rfc_split.induct)
  case (1 n)
  show ?case
  proof (cases "n \<le> 2")
    case True
    with 1(2) have "n = 2" by simp
    then show ?thesis by (subst (1 2 3) rfc_split.simps) (auto intro: exI [of _ 0])
  next
    case False
    then have ih: "(\<exists>e. rfc_split ((n + 1) div 2) = 2 ^ e) \<and>
        rfc_split ((n + 1) div 2) < (n + 1) div 2 \<and> (n + 1) div 2 \<le> 2 * rfc_split ((n + 1) div 2)"
      using 1(1) by simp
    then obtain e where e: "rfc_split ((n + 1) div 2) = 2 ^ e" by blast
    have s: "rfc_split n = 2 * rfc_split ((n + 1) div 2)"
      using False by (simp add: rfc_split_step)
    have "rfc_split n = 2 ^ Suc e" using s e by simp
    moreover have "rfc_split n < n" using s ih by linarith
    moreover have "n \<le> 2 * rfc_split n" using s ih by linarith
    ultimately show ?thesis by blast
  qed
qed

lemma map_upt_shift: "map f [0..<Suc n] = f 0 # map (\<lambda>j. f (Suc j)) [0..<n]"
  by (simp add: upt_conv_Cons map_Suc_upt [symmetric] del: upt_Suc)

lemma reduce_level_pair_up: "reduce_level H xs = pair_up H xs"
proof (induction H xs rule: pair_up.induct)
  case (1 H a b r)
  show ?case
  proof (cases "even (length r)")
    case True
    then obtain m where m: "length r = 2 * m" by (auto elim: evenE)
    have "reduce_level H (a # b # r) = node_hash H a b # reduce_level H r"
      using m by (simp add: reduce_level_def Let_def map_upt_shift del: upt_Suc)
    with 1 show ?thesis by simp
  next
    case False
    then obtain m where m: "length r = 2 * m + 1" by (auto elim: oddE)
    then have "r \<noteq> []" by auto
    then have "reduce_level H (a # b # r) = node_hash H a b # reduce_level H r"
      using m by (simp add: reduce_level_def Let_def map_upt_shift del: upt_Suc)
    with 1 show ?thesis by simp
  qed
next
  case (2 H a)
  show ?case by (simp add: reduce_level_def)
next
  case (3 H)
  show ?case by (simp add: reduce_level_def)
qed

lemma pair_up_length: "length (pair_up H xs) = (length xs + 1) div 2"
  by (induction H xs rule: pair_up.induct) simp_all

lemma pair_up_append:
  "even (length xs) \<Longrightarrow> pair_up H (xs @ ys) = pair_up H xs @ pair_up H ys"
  by (induction H xs rule: pair_up.induct) simp_all

lemma MTH_single: "MTH H [d] = d"
  by (subst MTH.simps) simp

lemma MTH_split:
  "2 \<le> length ds \<Longrightarrow>
   MTH H ds = H ([0x01] @ MTH H (take (rfc_split (length ds)) ds)
                        @ MTH H (drop (rfc_split (length ds)) ds))"
  by (subst MTH.simps) (simp add: Let_def)

text \<open>One pass of the loop does not change the tree hash of the list.\<close>

lemma MTH_pair_up: "xs \<noteq> [] \<Longrightarrow> MTH H (pair_up H xs) = MTH H xs"
proof (induction "length xs" arbitrary: xs rule: less_induct)
  case less
  consider "length xs = 1" | "length xs = 2" | "2 < length xs"
  proof -
    have "length xs \<noteq> 0" using less.prems by simp
    then show ?thesis using that by linarith
  qed
  then show ?case
  proof cases
    case 1
    then obtain a where "xs = [a]" by (cases xs) auto
    then show ?thesis by simp
  next
    case 2
    then obtain a b where xs: "xs = [a, b]"
      by (cases xs; cases "tl xs") auto
    show ?thesis
      unfolding xs by (simp add: MTH_single MTH_split rfc_split.simps node_hash_def)
  next
    case 3
    define n where "n = length xs"
    define k where "k = rfc_split n"
    define m where "m = (n + 1) div 2"
    have kn: "k < n" and k0: "0 < k"
      using 3 rfc_split_less [of n] rfc_split_pos [of n] by (simp_all add: k_def n_def)
    have k2: "k = 2 * rfc_split m"
      using 3 by (simp add: k_def m_def n_def rfc_split_step)
    have lt: "length (take k xs) = k" using kn by (simp add: n_def)
    have split: "pair_up H xs = pair_up H (take k xs) @ pair_up H (drop k xs)"
      using pair_up_append [of "take k xs" H "drop k xs"] lt k2 by simp
    have len1: "length (pair_up H (take k xs)) = rfc_split m"
      using lt k2 by (simp add: pair_up_length)
    have lenp: "length (pair_up H xs) = m"
      by (simp add: pair_up_length m_def n_def)
    have m2: "2 \<le> m" using 3 by (simp add: m_def n_def)
    have "MTH H (pair_up H xs) =
          H ([0x01] @ MTH H (take (rfc_split m) (pair_up H xs))
                    @ MTH H (drop (rfc_split m) (pair_up H xs)))"
      using MTH_split [of "pair_up H xs" H] lenp m2 by simp
    also have "take (rfc_split m) (pair_up H xs) = pair_up H (take k xs)"
      using split len1 by simp
    also have "drop (rfc_split m) (pair_up H xs) = pair_up H (drop k xs)"
      using split len1 by simp
    also have "MTH H (pair_up H (take k xs)) = MTH H (take k xs)"
      using less.hyps [of "take k xs"] kn k0 less.prems by (auto simp: n_def)
    also have "MTH H (pair_up H (drop k xs)) = MTH H (drop k xs)"
      using less.hyps [of "drop k xs"] kn k0 less.prems by (auto simp: n_def)
    also have "H ([0x01] @ MTH H (take k xs) @ MTH H (drop k xs)) = MTH H xs"
      using MTH_split [of xs H] 3 by (simp add: k_def n_def)
    finally show ?thesis .
  qed
qed

lemma reduce_level_shorter:
  "2 \<le> length xs \<Longrightarrow> length (reduce_level H xs) < length xs \<and> reduce_level H xs \<noteq> []"
proof -
  assume 2: "2 \<le> length xs"
  have len: "length (reduce_level H xs) = (length xs + 1) div 2"
    by (simp add: reduce_level_pair_up pair_up_length)
  then have "0 < length (reduce_level H xs)" using 2 by simp
  then show ?thesis using len 2 by auto
qed

lemma tree_hash_loop_MTH: "xs \<noteq> [] \<Longrightarrow> tree_hash_loop H xs = Some (MTH H xs)"
proof (induction "length xs" arbitrary: xs rule: less_induct)
  case less
  show ?case
  proof (cases "length xs = 1")
    case True
    then obtain a where "xs = [a]" by (cases xs) auto
    then show ?thesis by (subst tree_hash_loop.simps) (simp add: MTH_single)
  next
    case False
    moreover have "length xs \<noteq> 0" using less.prems by simp
    ultimately have 2: "2 \<le> length xs" by linarith
    have "tree_hash_loop H xs = tree_hash_loop H (reduce_level H xs)"
      using False by (subst tree_hash_loop.simps) simp
    also have "\<dots> = Some (MTH H (reduce_level H xs))"
      using less.hyps reduce_level_shorter [OF 2] by blast
    also have "MTH H (reduce_level H xs) = MTH H xs"
      using MTH_pair_up [OF less.prems] by (simp add: reduce_level_pair_up)
    finally show ?thesis .
  qed
qed

lemma those_map_Some: "those (map (\<lambda>x. Some (f x)) xs) = Some (map f xs)"
  by (induction xs) simp_all

text \<open>
  Claim C1. For every non-empty list of hashes, a power of two long or not,
  \<open>get_partial_tree_hash\<close> returns the Merkle Tree Hash of RFC 6962 of the list, the one
  that splits at the largest power of two below the length; and for a package with at
  least one bundle, each with at least one entry, the hash that \<open>compute_package\<close> writes
  is the Merkle Tree Hash of the list of the Merkle Tree Hashes of its bundles.
\<close>

theorem get_partial_tree_hash_is_MTH:
  "(entry_hashes \<noteq> [] \<longrightarrow>
      get_partial_tree_hash digest entry_hashes = Some (MTH digest entry_hashes)) \<and>
   (get_bundle_list fs (path_join log_dir (build_package_name pkg_num)) tree_size = Inr bundle_list
      \<and> bundle_list \<noteq> []
      \<and> (\<forall>bndl \<in> set bundle_list.
            read_bundle (path_join (path_join log_dir (build_package_name pkg_num)) bndl) \<noteq> []) \<longrightarrow>
      compute_package digest fs read_bundle (pkg_num, log_dir, tree_size) =
        Some (Inr (write_tree_hash log_dir pkg_num tree_size
          (MTH digest
             (map (\<lambda>bndl. MTH digest (get_leaf_hashes digest
                      (read_bundle (path_join (path_join log_dir (build_package_name pkg_num)) bndl))))
                  bundle_list)))))"
proof (intro conjI impI)
  assume "entry_hashes \<noteq> []"
  then show "get_partial_tree_hash digest entry_hashes = Some (MTH digest entry_hashes)"
    by (simp add: get_partial_tree_hash_def tree_hash_loop_MTH)
next
  let ?dir = "path_join log_dir (build_package_name pkg_num)"
  let ?leaves = "\<lambda>bndl. get_leaf_hashes digest (read_bundle (path_join ?dir bndl))"
  assume a: "get_bundle_list fs ?dir tree_size = Inr bundle_list \<and> bundle_list \<noteq> []
      \<and> (\<forall>bndl \<in> set bundle_list. read_bundle (path_join ?dir bndl) \<noteq> [])"
  then have "\<forall>bndl \<in> set bundle_list.
      get_partial_tree_hash digest (?leaves bndl) = Some (MTH digest (?leaves bndl))"
    by (simp add: get_partial_tree_hash_def tree_hash_loop_MTH get_leaf_hashes_def)
  then have "map (\<lambda>bndl. get_partial_tree_hash digest (?leaves bndl)) bundle_list
      = map (\<lambda>bndl. Some (MTH digest (?leaves bndl))) bundle_list"
    by simp
  then have bundles: "those (map (\<lambda>bndl. get_partial_tree_hash digest (?leaves bndl)) bundle_list)
      = Some (map (\<lambda>bndl. MTH digest (?leaves bndl)) bundle_list)"
    by (simp only: those_map_Some)
  have top: "get_partial_tree_hash digest (map (\<lambda>bndl. MTH digest (?leaves bndl)) bundle_list)
      = Some (MTH digest (map (\<lambda>bndl. MTH digest (?leaves bndl)) bundle_list))"
    using a by (simp add: get_partial_tree_hash_def tree_hash_loop_MTH)
  show "compute_package digest fs read_bundle (pkg_num, log_dir, tree_size) =
        Some (Inr (write_tree_hash log_dir pkg_num tree_size
          (MTH digest (map (\<lambda>bndl. MTH digest (?leaves bndl)) bundle_list))))"
    using a bundles top by (simp add: compute_package_def Let_def)
qed

lemma sample_bundle_list:
  "get_bundle_list sample_fs (path_join ''/tmp/log'' (build_package_name 0)) 7 =
     Inr [''0000000000-0000000003.json.gz'', ''0000000004-0000000006.json.gz'']"
  by code_simp

theorem get_partial_tree_hash_is_MTH_witness:
  "[[1], [2], [3]] \<noteq> ([] :: bytes list) \<and>
   get_partial_tree_hash plain_digest [[1], [2], [3]] = Some (MTH plain_digest [[1], [2], [3]]) \<and>
   MTH plain_digest [[1], [2], [3]] = [1, 1, 1, 2, 3] \<and>
   compute_package plain_digest sample_fs sample_bundle (0, ''/tmp/log'', 7) =
     Some (Inr (''/tmp/log/000-0000000007.info'',
       \<lparr>pkg_hash = [1, 1, 1, 0, 10, 0, 11, 1, 0, 12, 0, 13, 1, 1, 0, 14, 0, 15, 0, 16],
        merkle_proof = []\<rparr>))"
proof -
  let ?bl = "[''0000000000-0000000003.json.gz'', ''0000000004-0000000006.json.gz'']"
  have ne: "[[1], [2], [3]] \<noteq> ([] :: bytes list)" by simp
  have rd: "\<forall>bndl \<in> set ?bl.
      sample_bundle (path_join (path_join ''/tmp/log'' (build_package_name 0)) bndl) \<noteq> []"
    by code_simp
  note t = get_partial_tree_hash_is_MTH [where entry_hashes = "[[1], [2], [3]]"
      and digest = plain_digest and fs = sample_fs and log_dir = "''/tmp/log''" and pkg_num = 0
      and tree_size = 7 and bundle_list = ?bl and read_bundle = sample_bundle]
  have a: "get_partial_tree_hash plain_digest [[1], [2], [3]] = Some (MTH plain_digest [[1], [2], [3]])"
    using t ne by blast
  have b: "compute_package plain_digest sample_fs sample_bundle (0, ''/tmp/log'', 7) =
      Some (Inr (write_tree_hash ''/tmp/log'' 0 7
        (MTH plain_digest (map (\<lambda>bndl. MTH plain_digest (get_leaf_hashes plain_digest
           (sample_bundle (path_join (path_join ''/tmp/log'' (build_package_name 0)) bndl)))) ?bl))))"
    using t sample_bundle_list rd by blast
  have m: "MTH plain_digest [[1], [2], [3]] = [1, 1, 1, 2, 3]" by code_simp
  have w: "write_tree_hash ''/tmp/log'' 0 7
        (MTH plain_digest (map (\<lambda>bndl. MTH plain_digest (get_leaf_hashes plain_digest
           (sample_bundle (path_join (path_join ''/tmp/log'' (build_package_name 0)) bndl)))) ?bl))
     = (''/tmp/log/000-0000000007.info'',
       \<lparr>pkg_hash = [1, 1, 1, 0, 10, 0, 11, 1, 0, 12, 0, 13, 1, 1, 0, 14, 0, 15, 0, 16],
        merkle_proof = []\<rparr>)"
    by code_simp
  show ?thesis using ne a b m w by simp
qed

section \<open>Termination of the Merkle reduction\<close>

lemma tree_hash_loop_returns: "xs \<noteq> [] \<Longrightarrow> \<exists>d. tree_hash_loop H xs = Some d"
proof (induction "length xs" arbitrary: xs rule: less_induct)
  case less
  show ?case
  proof (cases "length xs = 1")
    case True
    then show ?thesis by (subst tree_hash_loop.simps) simp
  next
    case False
    moreover have "length xs \<noteq> 0" using less.prems by simp
    ultimately have 2: "2 \<le> length xs" by linarith
    have "tree_hash_loop H xs = tree_hash_loop H (reduce_level H xs)"
      using False by (subst tree_hash_loop.simps) simp
    then show ?thesis using less.hyps reduce_level_shorter [OF 2] by metis
  qed
qed

text \<open>A call of the loop that returns was not given the empty list.\<close>

lemma tree_hash_loop_some_nonempty:
  assumes "tree_hash_loop H xs = Some d"
  shows "xs \<noteq> []"
proof (rule tree_hash_loop.raw_induct [where P = "\<lambda>H xs d. xs \<noteq> []", OF _ assms])
  fix loop :: "(bytes \<Rightarrow> bytes) \<Rightarrow> bytes list \<Rightarrow> bytes option"
  fix sha256 cur y
  assume ih: "\<And>sha256 cur y. loop sha256 cur = Some y \<Longrightarrow> cur \<noteq> []"
  assume step: "(if length cur \<noteq> 1 then loop sha256 (reduce_level sha256 cur)
      else Some (cur ! 0)) = Some y"
  show "cur \<noteq> []"
  proof
    assume "cur = []"
    with step have "loop sha256 [] = Some y" by (simp add: reduce_level_def)
    with ih show False by blast
  qed
qed

lemma tree_hash_loop_empty: "tree_hash_loop H [] = None"
proof (cases "tree_hash_loop H []")
  case None
  then show ?thesis .
next
  case (Some d)
  then show ?thesis using tree_hash_loop_some_nonempty by blast
qed

text \<open>
  Claim C10. \<open>get_partial_tree_hash\<close> returns a digest for every non-empty list of hashes;
  on the empty list its loop never ends; hence \<open>compute_package\<close> does not return for a
  package whose directory has no bundle to select.
\<close>

theorem get_partial_tree_hash_returns_iff_nonempty:
  "(entry_hashes \<noteq> [] \<longrightarrow> (\<exists>d. get_partial_tree_hash digest entry_hashes = Some d)) \<and>
   get_partial_tree_hash digest [] = None \<and>
   (get_bundle_list fs (path_join log_dir (build_package_name pkg_num)) tree_size = Inr [] \<longrightarrow>
      compute_package digest fs read_bundle (pkg_num, log_dir, tree_size) = None)"
  by (simp add: get_partial_tree_hash_def tree_hash_loop_returns tree_hash_loop_empty
      compute_package_def Let_def)

lemma sample_empty_package:
  "get_bundle_list sample_fs (path_join ''/tmp/log'' (build_package_name 1)) 7 = Inr []"
  by code_simp

theorem get_partial_tree_hash_returns_iff_nonempty_witness:
  "[[1], [2], [3]] \<noteq> ([] :: bytes list) \<and>
   (\<exists>d. get_partial_tree_hash plain_digest [[1], [2], [3]] = Some d) \<and>
   get_partial_tree_hash plain_digest [] = None \<and>
   get_bundle_list sample_fs ''/tmp/log/001'' 7 = Inr [] \<and>
   compute_package plain_digest sample_fs sample_bundle (1, ''/tmp/log'', 7) = None"
proof -
  note t = get_partial_tree_hash_returns_iff_nonempty [where entry_hashes = "[[1], [2], [3]]"
      and digest = plain_digest and fs = sample_fs and log_dir = "''/tmp/log''" and pkg_num = 1
      and tree_size = 7 and read_bundle = sample_bundle]
  have ne: "[[1], [2], [3]] \<noteq> ([] :: bytes list)" by simp
  have p: "path_join ''/tmp/log'' (build_package_name 1) = ''/tmp/log/001''" by code_simp
  show ?thesis using t ne sample_empty_package p by simp
qed

section \<open>The bundle size check of \<open>get_ct\<close>\<close>

lemma pow2_and_pred_nat:
  "0 < n \<Longrightarrow> n AND (n - 1) = 0 \<Longrightarrow> \<exists>k. n = 2 ^ k" for n :: nat
proof (induction n rule: less_induct)
  case (less n)
  show ?case
  proof (cases "even n")
    case True
    then obtain m where m: "n = 2 * m" by (auto elim: evenE)
    with less.prems have m0: "0 < m" by simp
    have d: "(n - 1) div 2 = m - 1" using m m0 by simp
    have "n AND (n - 1) = 2 * (m AND (m - 1))"
      using m d by (subst and_rec) simp
    with less.prems have "m AND (m - 1) = 0" by simp
    moreover have "m < n" using m m0 by simp
    ultimately obtain k where "m = 2 ^ k" using less.IH m0 by blast
    then have "n = 2 ^ Suc k" using m by simp
    then show ?thesis by blast
  next
    case False
    then obtain m where m: "n = 2 * m + 1" by (auto elim: oddE)
    have "n AND (n - 1) = 2 * (m AND m)"
      using m by (subst and_rec) simp
    with less.prems have "m = 0" by simp
    then have "n = 2 ^ 0" using m by simp
    then show ?thesis by blast
  qed
qed

lemma pow2_and_pred_int: "(2 :: int) ^ k AND (2 ^ k - 1) = 0"
proof -
  have "(2 :: int) ^ k - 1 = mask k" by (simp add: mask_eq_exp_minus_1)
  moreover have "mask k AND (2 :: int) ^ k = 0"
    by (simp add: and_exp_eq_0_iff_not_bit bit_mask_iff)
  ultimately show ?thesis by (simp add: and.commute)
qed

text \<open>The test of the source holds exactly for the positive powers of two.\<close>

lemma bundle_size_ok_iff: "bundle_size_ok b \<longleftrightarrow> (\<exists>k. b = 2 ^ k)"
proof
  assume ok: "bundle_size_ok b"
  then have pos: "0 < b" and z: "b AND (b - 1) = 0" by (simp_all add: bundle_size_ok_def)
  define n where "n = nat b"
  have b: "b = int n" and n0: "0 < n" using pos by (simp_all add: n_def)
  have "int (n AND (n - 1)) = b AND (b - 1)"
    using n0 by (simp add: b of_nat_and_eq)
  with z have "n AND (n - 1) = 0" by simp
  then obtain k where "n = 2 ^ k" using pow2_and_pred_nat [OF n0] by blast
  then have "b = 2 ^ k" using b by simp
  then show "\<exists>k. b = 2 ^ k" by blast
next
  assume "\<exists>k. b = 2 ^ k"
  then obtain k where "b = 2 ^ k" by blast
  then show "bundle_size_ok b" by (simp add: bundle_size_ok_def pow2_and_pred_int)
qed

text \<open>
  Claim C9. When \<open>bundle_size\<close> is not a positive power of two, \<open>get_ct\<close> raises the bundle
  size error and has made no request and written nothing; when it is one, \<open>get_ct\<close> does
  not raise that error.
\<close>

theorem get_ct_bundle_size_check:
  "((\<nexists>k. bundle_size = 2 ^ k) \<longrightarrow>
      get_ct lib reply fetch pkg_root_dir url log_list_file start_index bundle_size
        = (Inl BundleSizeNotPowerOfTwo, [])) \<and>
   ((\<exists>k. bundle_size = 2 ^ k) \<longrightarrow>
      fst (get_ct lib reply fetch pkg_root_dir url log_list_file start_index bundle_size)
        \<noteq> Inl BundleSizeNotPowerOfTwo)"
proof (intro conjI impI)
  assume "\<nexists>k. bundle_size = 2 ^ k"
  then have "\<not> bundle_size_ok bundle_size" by (simp add: bundle_size_ok_iff)
  then show "get_ct lib reply fetch pkg_root_dir url log_list_file start_index bundle_size
      = (Inl BundleSizeNotPowerOfTwo, [])"
    by (simp add: get_ct_def)
next
  assume "\<exists>k. bundle_size = 2 ^ k"
  then have ok: "bundle_size_ok bundle_size" by (simp add: bundle_size_ok_iff)
  have sth: "\<And>e. get_sth lib reply url \<noteq> (Inl BundleSizeNotPowerOfTwo, e)"
    by (auto simp: get_sth_def split: prod.splits if_splits option.splits)
  have ver: "\<And>bths. get_verifier bths \<noteq> Inl BundleSizeNotPowerOfTwo"
    by (auto simp: get_verifier_def Let_def)
  have hnd: "\<And>s e. handle_new_sth lib s pkg_root_dir log_list_file url
      \<noteq> (Inl BundleSizeNotPowerOfTwo, e)"
    using ver
    by (auto simp: handle_new_sth_def verify_sth_def
        split: if_splits option.splits sum.splits prod.splits)
  show "fst (get_ct lib reply fetch pkg_root_dir url log_list_file start_index bundle_size)
      \<noteq> Inl BundleSizeNotPowerOfTwo"
    using ok
    by (auto simp: get_ct_def Let_def sth hnd
        split: prod.splits sum.splits option.splits if_splits)
qed

theorem get_ct_bundle_size_check_witness:
  "(\<nexists>k. (1000 :: int) = 2 ^ k) \<and>
   get_ct sample_lib (200, sample_sth_body) no_fetch ''/tmp/log'' ''ct.example.org/log''
      ''log_list.json'' 0 1000 = (Inl BundleSizeNotPowerOfTwo, []) \<and>
   (\<exists>k. (1024 :: int) = 2 ^ k) \<and>
   fst (get_ct sample_lib (200, sample_sth_body) no_fetch ''/tmp/log'' ''ct.example.org/log''
      ''log_list.json'' 0 1024) \<noteq> Inl BundleSizeNotPowerOfTwo"
proof -
  have "\<not> bundle_size_ok 1000" by (simp add: bundle_size_ok_def)
  then have no: "\<nexists>k. (1000 :: int) = 2 ^ k" by (simp add: bundle_size_ok_iff)
  have "(1024 :: int) = 2 ^ 10" by simp
  then have yes: "\<exists>k. (1024 :: int) = 2 ^ k" by blast
  show ?thesis
    using no yes
      get_ct_bundle_size_check [where bundle_size = 1000 and lib = sample_lib
        and reply = "(200, sample_sth_body)" and fetch = no_fetch and pkg_root_dir = "''/tmp/log''"
        and url = "''ct.example.org/log''" and log_list_file = "''log_list.json''" and start_index = 0]
      get_ct_bundle_size_check [where bundle_size = 1024 and lib = sample_lib
        and reply = "(200, sample_sth_body)" and fetch = no_fetch and pkg_root_dir = "''/tmp/log''"
        and url = "''ct.example.org/log''" and log_list_file = "''log_list.json''" and start_index = 0]
    by blast
qed

section \<open>The piece length of a torrent\<close>

text \<open>
  Claim C8. The piece length chosen for a file list of total size \<open>T\<close> is the larger of
  \<open>2 ^ 15\<close> and \<open>T div 1500\<close> rounded down to a multiple of \<open>2 ^ 13\<close>, in integer
  arithmetic; it is 32768 for three million and for thirty million bytes, and 196608 for
  three hundred million.
\<close>

theorem piece_length_formula:
  "piece_length files = max (2 ^ 15) (total_size files div 1500 div 2 ^ 13 * 2 ^ 13) \<and>
   total_size files = sum_list (map flength files) \<and>
   piece_length_of 3000000 = 32768 \<and>
   piece_length_of 30000000 = 32768 \<and>
   piece_length_of 300000000 = 196608 \<and>
   piece_length [\<lparr>flength = 299990000, fpath = [''000'', ''0000000000-0000001023.json.gz'']\<rparr>,
                 \<lparr>flength = 10000, fpath = [''sth-0000001024.json'']\<rparr>] = 196608"
  by (simp add: piece_length_def piece_length_of_def total_size_def push_bit_eq_mult drop_bit_eq_div)

section \<open>The digests of the pieces\<close>

lemma read_loop_inv:
  "0 < L \<Longrightarrow> length (fst st) < L \<Longrightarrow>
   length (fst (read_loop sha1 L st rest)) = (length (fst st) + length rest) mod L \<and>
   length (snd (read_loop sha1 L st rest)) = length (snd st) + (length (fst st) + length rest) div L"
proof (induction sha1 L st rest rule: read_loop.induct)
  case (1 sha1 L st rest)
  define a where "a = length (fst st)"
  define r where "r = length rest"
  have aL: "a < L" using 1 by (simp add: a_def)
  show ?case
  proof (cases "rest = []")
    case True
    then show ?thesis using 1(3,4) by (subst (1 2) read_loop.simps) simp
  next
    case False
    then have buf: "length (take L rest) \<noteq> 0" using 1(3) by simp
    show ?thesis
    proof (cases "L \<le> length (fst st @ take L rest)")
      case True
      let ?st' = "(drop L (fst st @ take L rest), snd st @ [sha1 (take L (fst st @ take L rest))])"
      have step: "read_loop sha1 L st rest = read_loop sha1 L ?st' (drop L rest)"
        using buf True by (subst read_loop.simps) (simp only: Let_def if_True if_False not_False_eq_True)
      have small: "length (fst ?st') < L" using aL True by (simp add: a_def min_def split: if_splits)
      have ih: "length (fst (read_loop sha1 L ?st' (drop L rest))) = (length (fst ?st') + length (drop L rest)) mod L \<and>
        length (snd (read_loop sha1 L ?st' (drop L rest))) = length (snd ?st') + (length (fst ?st') + length (drop L rest)) div L"
        using 1(1) [OF refl buf refl True 1(3) small] .
      define x where "x = length (fst ?st') + length (drop L rest)"
      have eq: "a + r = x + L"
        using True aL by (simp add: x_def a_def r_def min_def split: if_splits)
      have m: "(a + r) mod L = x mod L"
        unfolding eq by simp
      have "L \<noteq> 0" using 1(3) by simp
      then have "(x + L) div L = x div L + 1" by (rule div_add_self2)
      then have d: "(a + r) div L = Suc (x div L)"
        unfolding eq by simp
      have "length (fst (read_loop sha1 L ?st' (drop L rest))) = x mod L"
        and "length (snd (read_loop sha1 L ?st' (drop L rest))) = length (snd ?st') + x div L"
        using ih unfolding x_def by blast+
      then show ?thesis unfolding step using m d by (simp add: a_def r_def)
    next
      case F2: False
      let ?st' = "(fst st @ take L rest, snd st)"
      have step: "read_loop sha1 L st rest = read_loop sha1 L ?st' (drop L rest)"
        using buf F2 by (subst read_loop.simps) (simp only: Let_def if_True if_False not_False_eq_True)
      have small: "length (fst ?st') < L" using F2 by simp
      have ih: "length (fst (read_loop sha1 L ?st' (drop L rest))) = (length (fst ?st') + length (drop L rest)) mod L \<and>
        length (snd (read_loop sha1 L ?st' (drop L rest))) = length (snd ?st') + (length (fst ?st') + length (drop L rest)) div L"
        using 1(2) [OF refl buf refl F2 1(3) small] .
      define x where "x = length (fst ?st') + length (drop L rest)"
      have eq: "a + r = x"
        using F2 by (simp add: x_def a_def r_def min_def split: if_splits)
      have "length (fst (read_loop sha1 L ?st' (drop L rest))) = x mod L"
        and "length (snd (read_loop sha1 L ?st' (drop L rest))) = length (snd ?st') + x div L"
        using ih unfolding x_def by blast+
      then show ?thesis unfolding step eq [symmetric] by (simp add: a_def r_def)
    qed
  qed
qed

lemma read_files_inv:
  "0 < L \<Longrightarrow> length (fst st) < L \<Longrightarrow>
   length (fst (foldl (read_loop sha1 L) st files)) = (length (fst st) + sum_list (map length files)) mod L \<and>
   length (snd (foldl (read_loop sha1 L) st files)) = length (snd st) + (length (fst st) + sum_list (map length files)) div L"
proof (induction files arbitrary: st)
  case Nil
  then show ?case by simp
next
  case (Cons f files)
  let ?st' = "read_loop sha1 L st f"
  have one: "length (fst ?st') = (length (fst st) + length f) mod L"
    "length (snd ?st') = length (snd st) + (length (fst st) + length f) div L"
    using read_loop_inv [OF Cons.prems, of sha1 f] by simp_all
  have small: "length (fst ?st') < L" using one(1) Cons.prems(1) by simp
  have ih: "length (fst (foldl (read_loop sha1 L) ?st' files)) = (length (fst ?st') + sum_list (map length files)) mod L"
    "length (snd (foldl (read_loop sha1 L) ?st' files)) = length (snd ?st') + (length (fst ?st') + sum_list (map length files)) div L"
    using Cons.IH [OF Cons.prems(1) small] by simp_all
  define a where "a = length (fst st) + length f"
  define t where "t = sum_list (map length files)"
  have m: "(a mod L + t) mod L = (a + t) mod L" by (simp add: mod_add_left_eq)
  have d: "a div L + (a mod L + t) div L = (a + t) div L"
    using Cons.prems(1) by (metis add.assoc div_mult_self3 less_numeral_extra(3) mult.commute mult_div_mod_eq)
  show ?case using ih one m d by (simp add: a_def t_def add.assoc)
qed

lemma get_pieces_length:
  "0 < L \<Longrightarrow> length (get_pieces sha1 files L) = sum_list (map length files) div L + 1"
  using read_files_inv [of L "([], [])" sha1 files] by (simp add: get_pieces_def Let_def)

text \<open>
  Claim C4. \<open>get_pieces\<close> yields one digest more than the claim says when the total
  size is a multiple of the piece length. A bundle of 32000 bytes, an STH file of 600 bytes
  and an info file of 168 bytes total 32768 bytes, for which \<open>create_torrent\<close> chooses pieces
  of 32768 bytes: \<open>get_pieces\<close> yields two digests for them, not one. The last one is the
  digest of the empty string, as the third equation shows on two files of two bytes and
  pieces of two bytes.
\<close>

theorem get_pieces_trailing_empty_digest:
  "piece_length_of 32768 = 32768 \<and>
   length (get_pieces digest [replicate 32000 0, replicate 600 1, replicate 168 2] 32768) = 2 \<and>
   get_pieces digest [[a, b], [c, d]] 2 = [digest [a, b], digest [c, d], digest []]"
proof (intro conjI)
  show "piece_length_of 32768 = 32768"
    by (simp add: piece_length_of_def push_bit_eq_mult drop_bit_eq_div)
  show "length (get_pieces digest [replicate 32000 0, replicate 600 1, replicate 168 2] 32768) = 2"
    by (simp add: get_pieces_length)
  show "get_pieces digest [[a, b], [c, d]] 2 = [digest [a, b], digest [c, d], digest []]"
    by (simp add: get_pieces_def read_loop.simps)
qed

section \<open>The resume index\<close>

lemma int_of_digits_snoc: "int_of_digits (s @ [c]) = 10 * int_of_digits s + digit_val c"
  by (simp add: int_of_digits_def)

lemma int_of_digits_append:
  "int_of_digits (s @ t) = 10 ^ length t * int_of_digits s + int_of_digits t"
proof (induction t rule: rev_induct)
  case Nil
  then show ?case by (simp add: int_of_digits_def)
next
  case (snoc c t)
  have "int_of_digits (s @ t @ [c]) = 10 * int_of_digits (s @ t) + digit_val c"
    using int_of_digits_snoc [of "s @ t" c] by simp
  then show ?case using snoc by (simp add: int_of_digits_snoc algebra_simps)
qed

lemma digit_chars:
  "0 \<le> n \<Longrightarrow> n < 10 \<Longrightarrow> digit_val (char_of (48 + n)) = n \<and> is_digit (char_of (48 + n))"
  for n :: int
proof -
  have "\<forall>n \<in> set [0..9]. digit_val (char_of (48 + n)) = n \<and> is_digit (char_of (48 + n))"
    by code_simp
  moreover assume "0 \<le> n" "n < 10"
  ultimately show ?thesis by simp
qed

lemma dec_digits_step:
  "\<not> n < 10 \<Longrightarrow> dec_digits n = dec_digits (n div 10) @ [char_of (48 + n mod 10)]"
  by (subst dec_digits.simps) simp

lemma int_of_dec_digits: "0 \<le> n \<Longrightarrow> int_of_digits (dec_digits n) = n"
proof (induction n rule: dec_digits.induct)
  case (1 n)
  show ?case
  proof (cases "n < 10")
    case True
    then show ?thesis
      using 1(2) by (subst dec_digits.simps) (simp add: int_of_digits_def digit_chars)
  next
    case False
    have "0 \<le> n mod 10" "n mod 10 < 10" by simp_all
    then have "digit_val (char_of (48 + n mod 10)) = n mod 10" by (simp add: digit_chars)
    moreover have "int_of_digits (dec_digits (n div 10)) = n div 10"
      using 1 False by simp
    ultimately show ?thesis
      using False by (simp add: dec_digits_step int_of_digits_snoc)
  qed
qed

lemma dec_digits_all_digits: "0 \<le> n \<Longrightarrow> list_all is_digit (dec_digits n)"
proof (induction n rule: dec_digits.induct)
  case (1 n)
  show ?case
  proof (cases "n < 10")
    case True
    then show ?thesis using 1(2) by (subst dec_digits.simps) (simp add: digit_chars)
  next
    case False
    have "0 \<le> n mod 10" "n mod 10 < 10" by simp_all
    then have "is_digit (char_of (48 + n mod 10))" by (simp add: digit_chars)
    moreover have "list_all is_digit (dec_digits (n div 10))" using 1 False by simp
    ultimately show ?thesis using False by (simp add: dec_digits_step)
  qed
qed

lemma dec_digits_length: "n < 10 ^ Suc k \<Longrightarrow> length (dec_digits n) \<le> Suc k"
proof (induction k arbitrary: n)
  case 0
  then show ?case by (subst dec_digits.simps) simp
next
  case (Suc k)
  show ?case
  proof (cases "n < 10")
    case True
    then show ?thesis by (subst dec_digits.simps) simp
  next
    case False
    have "n div 10 < 10 ^ Suc k" using Suc.prems by (simp add: div_less_iff_less_mult)
    then have "length (dec_digits (n div 10)) \<le> Suc k" by (rule Suc.IH)
    then show ?thesis using False by (simp add: dec_digits_step)
  qed
qed

lemma int_of_digits_zeros: "int_of_digits (replicate k CHR ''0'') = 0"
  by (induction k) (simp_all add: int_of_digits_def digit_val_def)

text \<open>A number below ten to the ten is written with exactly ten digits and read back.\<close>

lemma format_zero_10:
  assumes "0 \<le> i" "i < 10 ^ 10"
  shows "length (format_zero 10 i) = 10" "list_all is_digit (format_zero 10 i)"
    "int_of_digits (format_zero 10 i) = i"
proof -
  have "i < 10 ^ Suc 9" using assms by simp
  then have len: "length (dec_digits i) \<le> 10"
    using dec_digits_length [of i 9] by simp
  have f: "format_zero 10 i = replicate (10 - length (dec_digits i)) CHR ''0'' @ dec_digits i"
    using assms by (simp add: format_zero_def zero_fill_def)
  show "length (format_zero 10 i) = 10" using len by (simp add: f)
  have "is_digit CHR ''0''" by (simp add: is_digit_def)
  then show "list_all is_digit (format_zero 10 i)"
    using dec_digits_all_digits [OF assms(1)] by (auto simp: f list_all_iff)
  show "int_of_digits (format_zero 10 i) = i"
    using assms by (simp add: f int_of_digits_append int_of_digits_zeros int_of_dec_digits)
qed

lemma bundle_filename_groups:
  assumes "0 \<le> S" "S < 10 ^ 10" "0 \<le> E" "E < 10 ^ 10"
  shows "int_of_digits (bundle_group1 (build_bundle_filename S E)) = S"
    and "int_of_digits (bundle_group2 (build_bundle_filename S E)) = E"
    and "bundle_name_re (build_bundle_filename S E)"
proof -
  note s = format_zero_10 [OF assms(1,2)]
  note e = format_zero_10 [OF assms(3,4)]
  show "int_of_digits (bundle_group1 (build_bundle_filename S E)) = S"
    using s by (simp add: bundle_group1_def build_bundle_filename_def)
  show "int_of_digits (bundle_group2 (build_bundle_filename S E)) = E"
    using s e by (simp add: bundle_group2_def build_bundle_filename_def)
  show "bundle_name_re (build_bundle_filename S E)"
    using s e
    by (simp add: bundle_name_re_def build_bundle_filename_def re_digits_def re_lit_def
        re_any_def re_dot_def newline_def re_match_end_def re_end_def)
qed

lemma last_sort_greatest:
  fixes f :: "'a :: linorder"
  assumes "f \<in> set xs" "\<forall>g \<in> set xs. g \<le> f"
  shows "last (sort xs) = f"
proof -
  have ne: "sort xs \<noteq> []" using assms(1) by (metis empty_iff set_empty set_sort)
  then have "last (sort xs) \<in> set xs" using last_in_set [OF ne] by simp
  then have le: "last (sort xs) \<le> f" using assms(2) by blast
  have "f \<in> set (sort xs)" using assms(1) by simp
  then obtain i where i: "i < length (sort xs)" "sort xs ! i = f"
    by (metis in_set_conv_nth)
  have "sort xs ! i \<le> sort xs ! (length (sort xs) - 1)"
    using i(1) by (intro sorted_nth_mono) auto
  then have "f \<le> last (sort xs)" using i(2) ne by (simp add: last_conv_nth)
  with le show ?thesis by simp
qed

text \<open>
  Claim C6. When the root directory has a package directory and the lexicographically last
  bundle file of the last package directory is the file of the entries \<open>S\<close> to \<open>E\<close>, then
  \<open>discover_start_index\<close> returns \<open>E + 1\<close> if the bundle is full
  (\<open>E - S + 1 = bundle_size\<close>) and \<open>S\<close> if it is partial (\<open>E - S + 1 < bundle_size\<close>).
\<close>

theorem discover_start_index_last_bundle:
  assumes "fs package_root_dir = Some names"
    and "sort (filter package_name_re names) \<noteq> []"
    and "fs (path_join package_root_dir (last (sort (filter package_name_re names)))) = Some bundle_names"
    and "build_bundle_filename S E \<in> set bundle_names"
    and "\<forall>g \<in> set bundle_names. bundle_name_re g \<longrightarrow> g \<le> build_bundle_filename S E"
    and "0 \<le> S" "S < 10 ^ 10" "0 \<le> E" "E < 10 ^ 10"
  shows "(E - S + 1 = bundle_size \<longrightarrow>
            discover_start_index fs package_root_dir package_size bundle_size = Inr (E + 1)) \<and>
         (E - S + 1 < bundle_size \<longrightarrow>
            discover_start_index fs package_root_dir package_size bundle_size = Inr S)"
proof -
  let ?f = "build_bundle_filename S E"
  let ?bl = "filter bundle_name_re bundle_names"
  note g = bundle_filename_groups [OF assms(6-9)]
  have mem: "?f \<in> set ?bl" using assms(4) g(3) by simp
  have top: "\<forall>g \<in> set ?bl. g \<le> ?f" using assms(5) by simp
  have l: "last (sort ?bl) = ?f" using last_sort_greatest [OF mem top] .
  have ne: "sort ?bl \<noteq> []" using mem by (metis empty_iff set_empty set_sort)
  have "discover_start_index fs package_root_dir package_size bundle_size =
      (if E - S + 1 = bundle_size then Inr (E + 1) else Inr S)"
    using assms(1-3) ne l g(1,2) by (simp add: discover_start_index_def Let_def)
  then show ?thesis by simp
qed

lemma sample_resume_facts:
  "sample_resume_fs ''/tmp/ct.example.org_log''
     = Some [''sth-0003146752.json'', ''003'', ''002'', ''002-0003146752.info'']"
  "sort (filter package_name_re [''sth-0003146752.json'', ''003'', ''002'', ''002-0003146752.info'']) \<noteq> []"
  "sample_resume_fs (path_join ''/tmp/ct.example.org_log''
      (last (sort (filter package_name_re
         [''sth-0003146752.json'', ''003'', ''002'', ''002-0003146752.info'']))))
     = Some [''0003145728-0003146751.json.gz'', ''0003145728-0003146000.json.gz'']"
  "build_bundle_filename 3145728 3146751
     \<in> set [''0003145728-0003146751.json.gz'', ''0003145728-0003146000.json.gz'']"
  "\<forall>g \<in> set [''0003145728-0003146751.json.gz'', ''0003145728-0003146000.json.gz''].
     bundle_name_re g \<longrightarrow> g \<le> build_bundle_filename 3145728 3146751"
  by code_simp+

theorem discover_start_index_last_bundle_witness:
  "discover_start_index sample_resume_fs ''/tmp/ct.example.org_log'' 1024 1024 = Inr 3146752 \<and>
   discover_start_index sample_resume_fs ''/tmp/ct.example.org_log'' 1024 2048 = Inr 3145728"
proof -
  have b: "(0 :: int) \<le> 3145728" "(3145728 :: int) < 10 ^ 10" "(0 :: int) \<le> 3146751"
    "(3146751 :: int) < 10 ^ 10"
    by simp_all
  note t = discover_start_index_last_bundle [OF sample_resume_facts b]
  have full: "(3146751 :: int) - 3145728 + 1 = 1024" by simp
  have part: "(3146751 :: int) - 3145728 + 1 < 2048" by simp
  show ?thesis
    using t [of 1024 1024] t [of 2048 1024] full part by simp
qed

text \<open>
  Claim C3. With an empty last package directory, \<open>discover_start_index\<close> reads the number
  from the last component of the root directory, not from the package directory: for the
  root \<open>/tmp/ct.example.org_log\<close> whose last package \<open>003\<close> is empty it raises
  \<open>ValueError\<close>, and for a root named \<open>7\<close> it returns \<open>7 * 1024 * 1024\<close> whatever the
  last package is.
\<close>

theorem discover_start_index_empty_last_package:
  "discover_start_index sample_crashed_fs ''/tmp/ct.example.org_log'' 1024 1024 = Inl ValueError \<and>
   discover_start_index sample_crashed_fs ''/tmp/7'' 1024 1024 = Inr (7 * 1024 * 1024)"
  by code_simp

section \<open>Bundle selection\<close>

text \<open>
  Claim C5. The last name of a group of bundles with the same start is always kept by
  \<open>get_bundle_list\<close>, also when its end is not below \<open>tree_size\<close>: for a directory with the
  bundles 0 to 511 and 0 to 1023 and a tree of 512 entries, both names are returned.
\<close>

theorem get_bundle_list_keeps_later_bundle:
  "get_bundle_list sample_regrown_fs ''/tmp/log/000'' 512 =
     Inr [''0000000000-0000000511.json.gz'', ''0000000000-0000001023.json.gz'']"
  by code_simp

section \<open>Inclusion proofs\<close>

text \<open>
  With four packages every proof that \<open>compute_proofs\<close> writes folds to the root it returns;
  here for the last package.
\<close>

lemma compute_proofs_four_packages:
  "compute_proofs digest float_exponent
     [(''000-0004194304.info'', \<lparr>pkg_hash = h0, merkle_proof = []\<rparr>),
      (''001-0004194304.info'', \<lparr>pkg_hash = h1, merkle_proof = []\<rparr>),
      (''002-0004194304.info'', \<lparr>pkg_hash = h2, merkle_proof = []\<rparr>),
      (''003-0004194304.info'', \<lparr>pkg_hash = h3, merkle_proof = []\<rparr>)] 4194304 0 3 =
     (Inr (node_hash digest (node_hash digest h0 h1) (node_hash digest h2 h3)),
      [(''000-0004194304.info'', \<lparr>pkg_hash = h0, merkle_proof = [h1, node_hash digest h2 h3]\<rparr>),
       (''001-0004194304.info'', \<lparr>pkg_hash = h1, merkle_proof = [h0, node_hash digest h2 h3]\<rparr>),
       (''002-0004194304.info'', \<lparr>pkg_hash = h2, merkle_proof = [h3, node_hash digest h0 h1]\<rparr>),
       (''003-0004194304.info'', \<lparr>pkg_hash = h3, merkle_proof = [h2, node_hash digest h0 h1]\<rparr>)]) \<and>
   audit_fold digest 3 4 h3 [h2, node_hash digest h0 h1]
     = node_hash digest (node_hash digest h0 h1) (node_hash digest h2 h3)"
  by code_simp

text \<open>
  Claim C2. With two packages, \<open>compute_proofs\<close> for the packages 0 to 1 returns the hash of
  the two package hashes as the root and writes an empty proof for package 1 (the mask
  starts at zero for \<open>last_package = 1\<close>, and the first round sets its lowest bit instead of
  clearing it). Folding the proof of package 0 gives the root; folding the empty proof of
  package 1 gives the hash of package 1 itself. This holds for every digest function and
  whatever the floating-point logarithm gives from \<open>2 ^ 29\<close> on.
\<close>

theorem compute_proofs_two_packages:
  "compute_proofs digest float_exponent
     [(''000-0002097152.info'', \<lparr>pkg_hash = h0, merkle_proof = []\<rparr>),
      (''001-0002097152.info'', \<lparr>pkg_hash = h1, merkle_proof = []\<rparr>)] 2097152 0 1 =
     (Inr (digest ([0x01] @ h0 @ h1)),
      [(''000-0002097152.info'', \<lparr>pkg_hash = h0, merkle_proof = [h1]\<rparr>),
       (''001-0002097152.info'', \<lparr>pkg_hash = h1, merkle_proof = []\<rparr>)]) \<and>
   audit_fold digest 0 2 h0 [h1] = digest ([0x01] @ h0 @ h1) \<and>
   audit_fold digest 1 2 h1 [] = h1"
  by code_simp

section \<open>The stored STH\<close>

text \<open>
  Claim C7, as amended. When the response parses and its signature verifies, the file
  \<open>sth-{tree_size:010}.json\<close> receives what \<open>json.dumps\<close> gives for the object that
  \<open>json.loads\<close> made of the response: the STH is parsed and serialised again, not copied.
  This holds for the \<open>json\<close> module as it is, since \<open>loads\<close> and \<open>dumps\<close> are arguments.
\<close>

theorem get_ct_writes_serialised_sth:
  assumes "\<exists>k. bundle_size = 2 ^ k"
    and "loads lib body = Some sth"
    and "verify_sth lib log_list_file url sth = Inr ()"
  shows "\<exists>rest. snd (get_ct lib (200, body) fetch pkg_root_dir url log_list_file start_index
                       bundle_size) =
           [Mkdir pkg_root_dir, Request url ''get-sth'',
            WriteFile (path_join pkg_root_dir (build_sth_name (sth_tree_size lib sth)))
              (dumps lib sth)] @ rest"
proof -
  have ok: "bundle_size_ok bundle_size" using assms(1) by (simp add: bundle_size_ok_iff)
  have g: "get_sth lib (200, body) url = (Inr sth, [Request url ''get-sth''])"
    using assms(2) by (simp add: get_sth_def)
  have h: "handle_new_sth lib sth pkg_root_dir log_list_file url =
      (Inr (), [WriteFile (path_join pkg_root_dir (build_sth_name (sth_tree_size lib sth)))
                  (dumps lib sth)])"
    using assms(3) by (simp add: handle_new_sth_def write_sth_def)
  show ?thesis
    using ok g h
    by (cases "fetch sth"; cases "fst (fetch sth)") (auto simp: get_ct_def Let_def)
qed

lemma sample_sth_parsed: "loads sample_lib sample_sth_body = Some sample_sth"
  by code_simp

text \<open>
  The signature field of the sample passes the test of \<open>get_verifier\<close>: hash algorithm 4,
  signature algorithm 3, and 70 bytes announced and present.
\<close>

lemma sample_signature_format:
  "map_option (\<lambda>bths. (take 4 bths, length (drop 4 bths))) (flat_signature sample_sth)
     = Some ([4, 3, 0, 70], 70)"
  by code_simp

lemma sample_sth_verified:
  "verify_sth sample_lib ''log_list.json'' ''ct.example.org/log'' sample_sth = Inr ()"
  by code_simp

theorem get_ct_writes_serialised_sth_witness:
  "(\<exists>k. (1024 :: int) = 2 ^ k) \<and>
   loads sample_lib sample_sth_body = Some sample_sth \<and>
   verify_sth sample_lib ''log_list.json'' ''ct.example.org/log'' sample_sth = Inr () \<and>
   (\<exists>rest. snd (get_ct sample_lib (200, sample_sth_body) no_fetch ''/tmp/log''
                    ''ct.example.org/log'' ''log_list.json'' 0 1024) =
      [Mkdir ''/tmp/log'', Request ''ct.example.org/log'' ''get-sth'',
       WriteFile (path_join ''/tmp/log'' (build_sth_name (sth_tree_size sample_lib sample_sth)))
         (dumps sample_lib sample_sth)] @ rest)"
proof -
  have "(1024 :: int) = 2 ^ 10" by simp
  then have p: "\<exists>k. (1024 :: int) = 2 ^ k" by blast
  note t = get_ct_writes_serialised_sth [where lib = sample_lib and bundle_size = 1024
      and body = sample_sth_body and log_list_file = "''log_list.json''"
      and url = "''ct.example.org/log''" and fetch = no_fetch
      and pkg_root_dir = "''/tmp/log''" and start_index = 0 and sth = sample_sth]
  show ?thesis
    using p sample_sth_parsed sample_sth_verified t [OF p sample_sth_parsed sample_sth_verified]
    by blast
qed

text \<open>
  Claim C7, as stated, fails: for a response in compact form whose signature verifies, the
  bytes written have a space after every colon and comma and are not the bytes of the
  response.
\<close>

theorem sth_rewritten_counterexample:
  "verify_sth sample_lib ''log_list.json'' ''ct.example.org/log'' sample_sth = Inr () \<and>
   get_ct sample_lib (200, sample_sth_body) no_fetch ''/tmp/log'' ''ct.example.org/log''
      ''log_list.json'' 0 1024 =
     (Inr sample_sth,
      [Mkdir ''/tmp/log'', Request ''ct.example.org/log'' ''get-sth'',
       WriteFile ''/tmp/log/sth-0000000007.json'' sample_sth_written]) \<and>
   sample_sth_written \<noteq> sample_sth_body"
  by code_simp

end
